theory Spec2Isabelle
  imports Complex_Main
begin

section \<open>Point-cloud mobjects (manim/mobject/types/point\_cloud\_mobject.py)\<close>

text \<open>
  A \<open>PMobject\<close> holds two parallel numpy arrays, \<open>points\<close> (shape N x 3) and
  \<open>rgbas\<close> (shape N x 4), a stroke width, a nominal colour and a list of
  submobjects. Arrays are lists of rows; a float is an (ideal) real number, except
  where the code divides by zero: there the IEEE value is written out
  (\<open>float64\<close> below); and except in \<open>add_line\<close>, where every operation is
  rounded to a double (\<open>fl\<close> below). In-place mutation is explicit state passing: a method takes
  the receiver and returns it updated. A method that raises returns
  \<open>Inl (e, s)\<close>, where \<open>s\<close> is the receiver as the exception leaves it.
  Submobjects form a tree (no node is shared between two parents).
\<close>

subsection \<open>Data\<close>

type_synonym point = "real \<times> real \<times> real"

type_synonym rgba = "real \<times> real \<times> real \<times> real"

datatype 'c pmobject = PMobject
  (points: "point list")
  (rgbas: "rgba list")
  (stroke_width: real)
  (color: 'c)
  (submobjects: "'c pmobject list")

datatype error =
    Exception string
  | IndexError
  | ValueError
  | TypeError
  | ZeroDivisionError

text \<open>
  What a caller may pass where the code expects an array: a numpy array of rows, or
  a Python list of rows that the callee converts with \<open>np.array\<close>. The two differ
  on the empty list only: \<open>np.array([])\<close> has shape \<open>(0,)\<close>, one dimension, where an
  empty array of points has shape \<open>(0, 3)\<close>.
\<close>

datatype 'a array_like = NDArray "'a list" | PyList "'a list"

fun rows :: "'a array_like \<Rightarrow> 'a list" where
  "rows (NDArray xs) = xs"
| "rows (PyList xs) = xs"

fun two_dimensional :: "'a array_like \<Rightarrow> bool" where
  "two_dimensional (NDArray xs) = True"
| "two_dimensional (PyList xs) = (xs \<noteq> [])"

text \<open>
  \<open>np.append(arr, values, axis=0)\<close> on a two-dimensional \<open>arr\<close>: the rows of
  \<open>values\<close> follow those of \<open>arr\<close>; numpy raises ValueError when \<open>values\<close> has
  another number of dimensions.
\<close>

definition np_append :: "'a list \<Rightarrow> 'a array_like \<Rightarrow> error + 'a list" where
  "np_append arr values =
     (if two_dimensional values then Inr (arr @ rows values) else Inl ValueError)"

text \<open>The invariant of the data model: in every family member the two arrays have
  the same number of rows.\<close>

fun pm_inv :: "'c pmobject \<Rightarrow> bool" where
  "pm_inv (PMobject ps rs w c subs) =
     (length ps = length rs \<and> (\<forall>m \<in> set subs. pm_inv m))"

text \<open>A property of the receiver as a call leaves it, whether the call returns or
  raises.\<close>

definition holds_after :: "('s \<Rightarrow> bool) \<Rightarrow> error \<times> 's + 's \<Rightarrow> bool" where
  "holds_after P outcome = (case outcome of Inl (e, s) \<Rightarrow> P s | Inr s \<Rightarrow> P s)"

text \<open>Modelled from the spec: \<open>Mobject.get_num_points\<close> is not under src/; it is the
  number of rows of \<open>points\<close>.\<close>

definition get_num_points :: "'c pmobject \<Rightarrow> nat" where
  "get_num_points m = length (points m)"

text \<open>Modelled from the spec: \<open>Mobject.get_family\<close> is not under src/; the family is
  the node itself followed by all its descendants, depth first.\<close>

fun get_family :: "'c pmobject \<Rightarrow> 'c pmobject list" where
  "get_family (PMobject ps rs w c subs) =
     PMobject ps rs w c subs # concat (map get_family subs)"

subsection \<open>reset\_points and add\_points (lines 23-45)\<close>

fun reset_points :: "'c pmobject \<Rightarrow> 'c pmobject" where
  "reset_points (PMobject ps rs w c subs) = PMobject [] [] w c subs"

text \<open>
  \<open>color_to_rgba\<close> (utils/color.py) and the constructor \<open>Color\<close> (package colour)
  are not under src/: they are parameters. The argument \<open>color\<close> is \<open>None\<close> when
  it is absent (or falsy: the code tests \<open>if color\<close>). The order of the source is
  kept: \<open>self.points\<close> is assigned before the lengths are compared.
\<close>

fun add_points ::
  "('c \<Rightarrow> real \<Rightarrow> rgba) \<Rightarrow> ('c \<Rightarrow> 'c) \<Rightarrow> point array_like \<Rightarrow> rgba array_like option \<Rightarrow>
   'c option \<Rightarrow> real \<Rightarrow> 'c pmobject \<Rightarrow> error \<times> 'c pmobject + 'c pmobject" where
  "add_points color_to_rgba Color pts rgbas_arg color_arg alpha (PMobject ps rs w c subs) =
     (let num_new_points = length (rows pts) in
      case np_append ps pts of
        Inl e \<Rightarrow> Inl (e, PMobject ps rs w c subs)
      | Inr ps' \<Rightarrow>
          (case rgbas_arg of
             None \<Rightarrow>
               (let col = (case color_arg of Some k \<Rightarrow> Color k | None \<Rightarrow> c);
                    new_rgbas = replicate num_new_points (color_to_rgba col alpha)
                in Inr (PMobject ps' (rs @ new_rgbas) w c subs))
           | Some given \<Rightarrow>
               if length (rows given) \<noteq> length (rows pts)
               then Inl (Exception ''points and rgbas must have same shape'',
                         PMobject ps' rs w c subs)
               else (case np_append rs given of
                       Inl e \<Rightarrow> Inl (e, PMobject ps' rs w c subs)
                     | Inr rs' \<Rightarrow> Inr (PMobject ps' rs' w c subs))))"

subsection \<open>Interpolation (utils/bezier.py)\<close>

text \<open>Modelled from the spec: \<open>interpolate\<close> is not under src/; it is the linear
  interpolation \<open>lerp(a, b, t)\<close>, applied elementwise to rows.\<close>

definition interpolate :: "real \<Rightarrow> real \<Rightarrow> real \<Rightarrow> real" where
  "interpolate start end alpha = (1 - alpha) * start + alpha * end"

fun interpolate_rgba :: "rgba \<Rightarrow> rgba \<Rightarrow> real \<Rightarrow> rgba" where
  "interpolate_rgba (r1, g1, b1, a1) (r2, g2, b2, a2) alpha =
     (interpolate r1 r2 alpha, interpolate g1 g2 alpha,
      interpolate b1 b2 alpha, interpolate a1 a2 alpha)"

fun interpolate_point :: "point \<Rightarrow> point \<Rightarrow> real \<Rightarrow> point" where
  "interpolate_point (x1, y1, z1) (x2, y2, z2) alpha =
     (interpolate x1 x2 alpha, interpolate y1 y2 alpha, interpolate z1 z2 alpha)"

text \<open>
  An elementwise operation on two arrays of rows follows numpy's broadcasting along
  the first axis: equal lengths pair up, a one-row array is repeated, anything else
  raises ValueError.
\<close>

definition np_broadcast2 :: "('a \<Rightarrow> 'a \<Rightarrow> 'a) \<Rightarrow> 'a list \<Rightarrow> 'a list \<Rightarrow> error + 'a list" where
  "np_broadcast2 f xs ys =
     (if length xs = length ys then Inr (map2 f xs ys)
      else if length xs = 1 then Inr (map (f (hd xs)) ys)
      else if length ys = 1 then Inr (map (\<lambda>x. f x (hd ys)) xs)
      else Inl ValueError)"

subsection \<open>Loops over the family\<close>

text \<open>
  Modelled from the spec: \<open>Mobject.family_members_with_points\<close> is not under src/; it
  lists, depth first, the family members that have at least one point. The list is
  built before the loop starts. The loop
  \<open>for mob in self.family_members_with_points(): body(mob)\<close>, for a body that
  assigns the arrays of \<open>mob\<close> and may raise, visits the tree in that order and
  stops at the first exception: members visited before keep their new arrays, later
  ones are untouched.
\<close>

fun for_family_members_with_points ::
  "(point list \<times> rgba list \<Rightarrow> error \<times> (point list \<times> rgba list) + point list \<times> rgba list) \<Rightarrow>
   'c pmobject \<Rightarrow> error \<times> 'c pmobject + 'c pmobject"
and for_each_with_points ::
  "(point list \<times> rgba list \<Rightarrow> error \<times> (point list \<times> rgba list) + point list \<times> rgba list) \<Rightarrow>
   'c pmobject list \<Rightarrow> error \<times> 'c pmobject list + 'c pmobject list" where
  "for_family_members_with_points body (PMobject ps rs w c subs) =
     (case (if ps = [] then Inr (ps, rs) else body (ps, rs)) of
        Inl (e, (ps', rs')) \<Rightarrow> Inl (e, PMobject ps' rs' w c subs)
      | Inr (ps', rs') \<Rightarrow>
          (case for_each_with_points body subs of
             Inl (e, subs') \<Rightarrow> Inl (e, PMobject ps' rs' w c subs')
           | Inr subs' \<Rightarrow> Inr (PMobject ps' rs' w c subs')))"
| "for_each_with_points body [] = Inr []"
| "for_each_with_points body (m # ms) =
     (case for_family_members_with_points body m of
        Inl (e, m') \<Rightarrow> Inl (e, m' # ms)
      | Inr m' \<Rightarrow>
          (case for_each_with_points body ms of
             Inl (e, ms') \<Rightarrow> Inl (e, m' # ms')
           | Inr ms' \<Rightarrow> Inr (m' # ms')))"

text \<open>
  Modelled from the spec: \<open>Mobject.apply_over_attr_arrays\<close> is not under src/; it
  replaces every per-point array by the function's result, in the order of
  \<open>get_array_attrs\<close> (line 28): \<open>points\<close>, then \<open>rgbas\<close>. The Python function is
  applied to arrays of both row types, hence the two arguments here.
\<close>

definition apply_over_attr_arrays ::
  "(point list \<Rightarrow> error + point list) \<Rightarrow> (rgba list \<Rightarrow> error + rgba list) \<Rightarrow>
   point list \<times> rgba list \<Rightarrow> error \<times> (point list \<times> rgba list) + point list \<times> rgba list" where
  "apply_over_attr_arrays f g = (\<lambda>(ps, rs).
     case f ps of
       Inl e \<Rightarrow> Inl (e, (ps, rs))
     | Inr ps' \<Rightarrow> (case g rs of
                    Inl e \<Rightarrow> Inl (e, (ps', rs))
                  | Inr rs' \<Rightarrow> Inr (ps', rs')))"

text \<open>\<open>arr[indices]\<close> for an array of non-negative integer indices: numpy raises
  IndexError when one of them is out of bounds.\<close>

definition take_rows :: "'a list \<Rightarrow> nat list \<Rightarrow> error + 'a list" where
  "take_rows arr indices =
     (if \<forall>i \<in> set indices. i < length arr then Inr (map (\<lambda>i. arr ! i) indices)
      else Inl IndexError)"

text \<open>\<open>arr[mask]\<close> for a boolean array: numpy raises IndexError when the mask and
  the array differ in length, and keeps the rows whose mask entry is true.\<close>

definition mask_rows :: "'a list \<Rightarrow> bool list \<Rightarrow> error + 'a list" where
  "mask_rows arr flags =
     (if length flags = length arr then Inr (map snd (filter fst (zip flags arr)))
      else Inl IndexError)"

subsection \<open>Colours and stroke width (lines 47-98)\<close>

fun set_rgbas_of_family :: "rgba \<Rightarrow> 'c pmobject \<Rightarrow> 'c pmobject" where
  "set_rgbas_of_family rgba (PMobject ps rs w c subs) =
     PMobject ps (if ps = [] then rs else map (\<lambda>_. rgba) rs) w c
       (map (set_rgbas_of_family rgba) subs)"

fun set_color :: "('c \<Rightarrow> real \<Rightarrow> rgba) \<Rightarrow> 'c \<Rightarrow> bool \<Rightarrow> 'c pmobject \<Rightarrow> 'c pmobject" where
  "set_color color_to_rgba col family (PMobject ps rs w c subs) =
     (let rgba = color_to_rgba col 1 in
      if family then
        (case set_rgbas_of_family rgba (PMobject ps rs w c subs) of
           PMobject ps' rs' w' c' subs' \<Rightarrow> PMobject ps' rs' w' col subs')
      else PMobject ps (map (\<lambda>_. rgba) rs) w col subs)"

definition get_stroke_width :: "'c pmobject \<Rightarrow> real" where
  "get_stroke_width self = stroke_width self"

fun set_stroke_width_of_family :: "real \<Rightarrow> 'c pmobject \<Rightarrow> 'c pmobject" where
  "set_stroke_width_of_family width (PMobject ps rs w c subs) =
     PMobject ps rs (if ps = [] then w else width) c
       (map (set_stroke_width_of_family width) subs)"

fun set_stroke_width :: "real \<Rightarrow> bool \<Rightarrow> 'c pmobject \<Rightarrow> 'c pmobject" where
  "set_stroke_width width family (PMobject ps rs w c subs) =
     (if family then set_stroke_width_of_family width (PMobject ps rs w c subs)
      else PMobject ps rs width c subs)"

text \<open>\<open>color_gradient\<close> (utils/color.py) is not under src/: a parameter. Only the
  reachable part of the method is modelled (it returns at line 69).\<close>

fun set_color_by_gradient ::
  "('c \<Rightarrow> real \<Rightarrow> rgba) \<Rightarrow> ('c list \<Rightarrow> nat \<Rightarrow> 'c list) \<Rightarrow> 'c list \<Rightarrow> 'c pmobject \<Rightarrow> 'c pmobject" where
  "set_color_by_gradient color_to_rgba color_gradient colors (PMobject ps rs w c subs) =
     PMobject ps (map (\<lambda>k. color_to_rgba k 1) (color_gradient colors (length ps))) w c subs"

text \<open>\<open>Mobject.align_data\<close> is not under src/: a parameter, which may change both
  mobjects or raise. The result is the pair (self, mobject).\<close>

definition match_colors ::
  "('c pmobject \<Rightarrow> 'c pmobject \<Rightarrow>
      error \<times> ('c pmobject \<times> 'c pmobject) + 'c pmobject \<times> 'c pmobject) \<Rightarrow>
   'c pmobject \<Rightarrow> 'c pmobject \<Rightarrow> error \<times> ('c pmobject \<times> 'c pmobject) + 'c pmobject \<times> 'c pmobject" where
  "match_colors align_data self mobject =
     (case align_data self mobject of
        Inl failure \<Rightarrow> Inl failure
      | Inr (self', mobject') \<Rightarrow>
          Inr (PMobject (points self') (rgbas mobject') (stroke_width self') (color self')
                 (submobjects self'), mobject'))"

subsection \<open>filter\_out, thin\_out, sort\_points (lines 100-125)\<close>

definition filter_out_arrays ::
  "(point \<Rightarrow> bool) \<Rightarrow> point list \<times> rgba list \<Rightarrow>
   error \<times> (point list \<times> rgba list) + point list \<times> rgba list" where
  "filter_out_arrays condition = (\<lambda>(ps, rs).
     let to_eliminate = map (\<lambda>p. \<not> condition p) ps in
     case mask_rows ps to_eliminate of
       Inl e \<Rightarrow> Inl (e, (ps, rs))
     | Inr ps' \<Rightarrow> (case mask_rows rs to_eliminate of
                    Inl e \<Rightarrow> Inl (e, (ps', rs))
                  | Inr rs' \<Rightarrow> Inr (ps', rs')))"

definition filter_out ::
  "(point \<Rightarrow> bool) \<Rightarrow> 'c pmobject \<Rightarrow> error \<times> 'c pmobject + 'c pmobject" where
  "filter_out condition self =
     for_family_members_with_points (filter_out_arrays condition) self"

text \<open>\<open>np.arange(0, num_points, factor)\<close> on integers: a zero step raises
  ZeroDivisionError, a negative step gives the empty range.\<close>

definition np_arange_int :: "nat \<Rightarrow> int \<Rightarrow> error + nat list" where
  "np_arange_int num_points factor =
     (if factor = 0 then Inl ZeroDivisionError
      else if factor < 0 then Inr []
      else Inr (map (\<lambda>i. i * nat factor)
                  [0 ..< (num_points + nat factor - 1) div nat factor]))"

definition thin_array :: "nat \<Rightarrow> int \<Rightarrow> 'a list \<Rightarrow> error + 'a list" where
  "thin_array num_points factor arr =
     (case np_arange_int num_points factor of
        Inl e \<Rightarrow> Inl e
      | Inr indices \<Rightarrow> take_rows arr indices)"

text \<open>
  Line 112 reads \<open>self.get_num_points()\<close>, the receiver's count, in every
  iteration. The receiver is the first member visited when it has points, so the
  later members see its count after thinning; when it has none it is not visited
  and the count is 0 throughout.
\<close>

fun thin_out :: "int \<Rightarrow> 'c pmobject \<Rightarrow> error \<times> 'c pmobject + 'c pmobject" where
  "thin_out factor (PMobject ps rs w c subs) =
     (if ps = [] then
        (case for_each_with_points
                (apply_over_attr_arrays (thin_array 0 factor) (thin_array 0 factor)) subs of
           Inl (e, subs') \<Rightarrow> Inl (e, PMobject ps rs w c subs')
         | Inr subs' \<Rightarrow> Inr (PMobject ps rs w c subs'))
      else
        (case apply_over_attr_arrays
                (thin_array (length ps) factor) (thin_array (length ps) factor) (ps, rs) of
           Inl (e, (ps', rs')) \<Rightarrow> Inl (e, PMobject ps' rs' w c subs)
         | Inr (ps', rs') \<Rightarrow>
             (case for_each_with_points
                     (apply_over_attr_arrays
                        (thin_array (length ps') factor) (thin_array (length ps') factor)) subs of
                Inl (e, subs') \<Rightarrow> Inl (e, PMobject ps' rs' w c subs')
              | Inr subs' \<Rightarrow> Inr (PMobject ps' rs' w c subs'))))"

text \<open>\<open>np.argsort\<close>: the indices that sort the keys. (numpy's default sort is not
  stable; the order here among equal keys is one of those it may return.)\<close>

definition np_argsort :: "real list \<Rightarrow> nat list" where
  "np_argsort keys = sort_key (\<lambda>i. keys ! i) [0 ..< length keys]"

definition sort_points_arrays ::
  "(point \<Rightarrow> real) \<Rightarrow> point list \<times> rgba list \<Rightarrow>
   error \<times> (point list \<times> rgba list) + point list \<times> rgba list" where
  "sort_points_arrays function = (\<lambda>(ps, rs).
     let indices = np_argsort (map function ps) in
     apply_over_attr_arrays (\<lambda>arr. take_rows arr indices) (\<lambda>arr. take_rows arr indices)
       (ps, rs))"

definition sort_points ::
  "(point \<Rightarrow> real) \<Rightarrow> 'c pmobject \<Rightarrow> error \<times> 'c pmobject + 'c pmobject" where
  "sort_points function self =
     for_family_members_with_points (sort_points_arrays function) self"

subsection \<open>fade\_to, ingest\_submobjects, point\_from\_proportion (lines 127-149)\<close>

fun fade_to :: "('c \<Rightarrow> real \<Rightarrow> rgba) \<Rightarrow> 'c \<Rightarrow> real \<Rightarrow> 'c pmobject \<Rightarrow> 'c pmobject" where
  "fade_to color_to_rgba col alpha (PMobject ps rs w c subs) =
     PMobject ps (map (\<lambda>r. interpolate_rgba r (color_to_rgba col 1) alpha) rs) w c
       (map (fade_to color_to_rgba col alpha) subs)"

text \<open>Modelled from the spec: \<open>Mobject.get_merged_array\<close> is not under src/; it
  concatenates the array of the node and of all its descendants, depth first.\<close>

fun get_merged_points :: "'c pmobject \<Rightarrow> point list" where
  "get_merged_points (PMobject ps rs w c subs) = ps @ concat (map get_merged_points subs)"

fun get_merged_rgbas :: "'c pmobject \<Rightarrow> rgba list" where
  "get_merged_rgbas (PMobject ps rs w c subs) = rs @ concat (map get_merged_rgbas subs)"

definition ingest_submobjects :: "'c pmobject \<Rightarrow> 'c pmobject" where
  "ingest_submobjects self =
     PMobject (get_merged_points self) (get_merged_rgbas self)
       (stroke_width self) (color self) []"

text \<open>A Python number is an \<open>int\<close> or a \<open>float\<close>; a product with a float is a
  float.\<close>

datatype pynum = PyInt int | PyFloat real

fun py_mul :: "pynum \<Rightarrow> pynum \<Rightarrow> pynum" where
  "py_mul (PyInt a) (PyInt b) = PyInt (a * b)"
| "py_mul (PyInt a) (PyFloat b) = PyFloat (of_int a * b)"
| "py_mul (PyFloat a) (PyInt b) = PyFloat (a * of_int b)"
| "py_mul (PyFloat a) (PyFloat b) = PyFloat (a * b)"

text \<open>\<open>arr[index]\<close> on a numpy array: an integer index counts from the end when
  negative and raises IndexError out of bounds; a float is not a valid index
  (IndexError, whatever its value).\<close>

fun np_getitem :: "'a list \<Rightarrow> pynum \<Rightarrow> error + 'a" where
  "np_getitem arr (PyFloat x) = Inl IndexError"
| "np_getitem arr (PyInt i) =
     (let n = int (length arr); j = (if i < 0 then i + n else i)
      in if 0 \<le> j \<and> j < n then Inr (arr ! nat j) else Inl IndexError)"

definition point_from_proportion :: "'c pmobject \<Rightarrow> pynum \<Rightarrow> error + point" where
  "point_from_proportion self alpha =
     (let index = py_mul alpha (PyInt (int (get_num_points self) - 1))
      in np_getitem (points self) index)"

subsection \<open>Alignment, interpolation, partial copies (lines 152-177)\<close>

text \<open>
  Modelled from the spec: \<open>stretch_array_to_length\<close> (utils/iterables.py) is not
  under src/; it resamples the array to the target length by a linear index mapping
  that keeps order and end points, so a one-row array is repeated. The spec allows
  only targets of equal or greater length; a shorter target, and an empty array
  with a positive target, are errors here.
\<close>

definition stretch_array_to_length :: "'a list \<Rightarrow> nat \<Rightarrow> error + 'a list" where
  "stretch_array_to_length arr target =
     (if target < length arr then Inl ValueError
      else if arr = [] \<and> 0 < target then Inl IndexError
      else Inr (map (\<lambda>i. arr ! (i * length arr div target)) [0 ..< target]))"

fun align_points_with_larger ::
  "'c pmobject \<Rightarrow> 'c pmobject \<Rightarrow> error \<times> 'c pmobject + 'c pmobject" where
  "align_points_with_larger (PMobject ps rs w c subs) larger_mobject =
     (case apply_over_attr_arrays
             (\<lambda>a. stretch_array_to_length a (get_num_points larger_mobject))
             (\<lambda>a. stretch_array_to_length a (get_num_points larger_mobject)) (ps, rs) of
        Inl (e, (ps', rs')) \<Rightarrow> Inl (e, PMobject ps' rs' w c subs)
      | Inr (ps', rs') \<Rightarrow> Inr (PMobject ps' rs' w c subs))"

fun interpolate_color ::
  "'c pmobject \<Rightarrow> 'c pmobject \<Rightarrow> 'c pmobject \<Rightarrow> real \<Rightarrow> error \<times> 'c pmobject + 'c pmobject" where
  "interpolate_color (PMobject ps rs w c subs) mobject1 mobject2 alpha =
     (case np_broadcast2 (\<lambda>x y. interpolate_rgba x y alpha) (rgbas mobject1) (rgbas mobject2) of
        Inl e \<Rightarrow> Inl (e, PMobject ps rs w c subs)
      | Inr rs' \<Rightarrow>
          Inr (set_stroke_width
                 (interpolate (get_stroke_width mobject1) (get_stroke_width mobject2) alpha)
                 True (PMobject ps rs' w c subs)))"

text \<open>\<open>int(x)\<close> truncates towards zero; a slice \<open>arr[lower:upper]\<close> counts negative
  bounds from the end and clips both to the array.\<close>

definition py_int :: "real \<Rightarrow> int" where
  "py_int x = (if 0 \<le> x then \<lfloor>x\<rfloor> else \<lceil>x\<rceil>)"

definition py_slice :: "'a list \<Rightarrow> int \<Rightarrow> int \<Rightarrow> 'a list" where
  "py_slice arr lower upper =
     (let n = int (length arr);
          clip = (\<lambda>i. if i < 0 then max 0 (i + n) else min i n);
          lo = nat (clip lower); hi = nat (clip upper)
      in take (hi - lo) (drop lo arr))"

fun pointwise_become_partial ::
  "'c pmobject \<Rightarrow> 'c pmobject \<Rightarrow> real \<Rightarrow> real \<Rightarrow> 'c pmobject" where
  "pointwise_become_partial (PMobject ps rs w c subs) mobject a b =
     (let lower_index = py_int (a * real (get_num_points mobject));
          upper_index = py_int (b * real (get_num_points mobject))
      in PMobject (py_slice (points mobject) lower_index upper_index)
           (py_slice (rgbas mobject) lower_index upper_index) w c subs)"

subsection \<open>Floats, ranges and vectors\<close>

text \<open>
  A division in which an operand is a numpy float does not raise on a zero divisor:
  numpy warns and returns the IEEE value (the radial step \<open>r\<close> of line 243 is a
  numpy float). Apart from these values a float is a real number here.
\<close>

datatype float64 = Finite real | PosInf | NegInf | NaN

definition np_divide :: "real \<Rightarrow> real \<Rightarrow> float64" where
  "np_divide x y =
     (if y \<noteq> 0 then Finite (x / y)
      else if 0 < x then PosInf else if x < 0 then NegInf else NaN)"

text \<open>
  \<open>np.arange(start, stop, step)\<close> in exact arithmetic, for a finite step: it has
  \<open>ceil((stop - start) / step)\<close> entries \<open>start + i * step\<close>, none when that
  number is not positive. A zero step is an error. It is used for
  \<open>generate_points\<close>, where the statements are about the first radial step;
  \<open>add_line\<close> uses the rounded range below.
\<close>

definition np_arange :: "real \<Rightarrow> real \<Rightarrow> real \<Rightarrow> error + real list" where
  "np_arange start stop step =
     (if step = 0 then Inl ZeroDivisionError
      else Inr (map (\<lambda>i. start + real i * step) [0 ..< nat \<lceil>(stop - start) / step\<rceil>]))"

text \<open>
  With an infinite step the quotient \<open>(stop - start) / step\<close> is a zero. numpy
  versions with the divide-by-inf check return the one-entry range \<open>[start]\<close> when
  that zero is positive and \<open>stop\<close> differs from \<open>start\<close>; versions without it
  return the empty range. The repository does not fix the version, so the check is
  a parameter (\<open>inf_check\<close>). A NaN step is an error.
\<close>

fun np_arange_float64 :: "bool \<Rightarrow> real \<Rightarrow> real \<Rightarrow> float64 \<Rightarrow> error + real list" where
  "np_arange_float64 inf_check start stop (Finite step) = np_arange start stop step"
| "np_arange_float64 inf_check start stop PosInf =
     Inr (if inf_check \<and> start < stop then [start] else [])"
| "np_arange_float64 inf_check start stop NegInf =
     Inr (if inf_check \<and> stop < start then [start] else [])"
| "np_arange_float64 inf_check start stop NaN = Inl ValueError"

fun sub_point :: "point \<Rightarrow> point \<Rightarrow> point" where
  "sub_point (x1, y1, z1) (x2, y2, z2) = (x1 - x2, y1 - y2, z1 - z2)"

fun add_point :: "point \<Rightarrow> point \<Rightarrow> point" where
  "add_point (x1, y1, z1) (x2, y2, z2) = (x1 + x2, y1 + y2, z1 + z2)"

fun scale_point :: "real \<Rightarrow> point \<Rightarrow> point" where
  "scale_point k (x, y, z) = (k * x, k * y, k * z)"

text \<open>Modelled from the spec: \<open>get_norm\<close> (utils/space\_ops.py) is not under src/; it
  is the Euclidean norm of a vector.\<close>

fun get_norm :: "point \<Rightarrow> real" where
  "get_norm (x, y, z) = sqrt (x * x + y * y + z * z)"

text \<open>Modelled from the spec: the unit vectors \<open>RIGHT\<close> and \<open>UP\<close> of constants.py,
  which is not under src/; the sampled point is \<open>r * (cos theta, sin theta, 0)\<close>.\<close>

definition RIGHT :: point where
  "RIGHT = (1, 0, 0)"

definition UP :: point where
  "UP = (0, 1, 0)"

subsection \<open>Rounding to float64\<close>

text \<open>
  In \<open>add_line\<close> the last sample decides what is appended, and rounding decides the
  last sample; there every float operation is rounded. \<open>fl x\<close> is the double
  nearest to \<open>x\<close>, with 53 significant bits and ties to the even significand. The
  exponent range is unbounded in the model: overflow, underflow and subnormal
  numbers are outside it.
\<close>

definition round_half_even :: "real \<Rightarrow> int" where
  "round_half_even y =
     (let f = \<lfloor>y\<rfloor> in
      if y - of_int f < 1 / 2 then f
      else if 1 / 2 < y - of_int f then f + 1
      else if even f then f else f + 1)"

definition fl :: "real \<Rightarrow> real" where
  "fl x =
     (if x = 0 then 0
      else (let ulp = 2 powr of_int (\<lfloor>log 2 \<bar>x\<bar>\<rfloor> - 52)
            in of_int (round_half_even (x / ulp)) * ulp))"

fun representable_point :: "point \<Rightarrow> bool" where
  "representable_point (x, y, z) = (fl x = x \<and> fl y = y \<and> fl z = z)"

text \<open>
  \<open>np.arange(start, stop, step)\<close> as numpy computes it on doubles: the length is
  the ceiling of the rounded quotient \<open>(stop - start) / step\<close>; the first entry is
  \<open>start\<close>, the second \<open>start + step\<close>, and entry \<open>i\<close> from the third on is
  \<open>start + i * delta\<close>, where \<open>delta\<close> is the difference of the first two; every
  operation is rounded. With a zero step the quotient is infinite and numpy raises
  \<open>ValueError\<close>.
\<close>

definition np_arange_rounded :: "real \<Rightarrow> real \<Rightarrow> real \<Rightarrow> error + real list" where
  "np_arange_rounded start stop step =
     (if step = 0 then Inl ValueError
      else (let n = nat \<lceil>fl (fl (stop - start) / step)\<rceil>;
                second = fl (start + step);
                delta = fl (second - start)
            in Inr (map (\<lambda>i. if i = 0 then start
                             else if i = 1 then second
                             else fl (start + fl (real i * delta))) [0 ..< n])))"

fun fl_sub_point :: "point \<Rightarrow> point \<Rightarrow> point" where
  "fl_sub_point (x1, y1, z1) (x2, y2, z2) = (fl (x1 - x2), fl (y1 - y2), fl (z1 - z2))"

text \<open>Modelled from the spec: \<open>interpolate\<close> (utils/bezier.py) is not under src/;
  \<open>lerp(a, b, t)\<close>, computed as \<open>(1 - t) * a + t * b\<close> with every operation
  rounded.\<close>

definition fl_interpolate :: "real \<Rightarrow> real \<Rightarrow> real \<Rightarrow> real" where
  "fl_interpolate start end alpha = fl (fl (fl (1 - alpha) * start) + fl (alpha * end))"

fun fl_interpolate_point :: "point \<Rightarrow> point \<Rightarrow> real \<Rightarrow> point" where
  "fl_interpolate_point (x1, y1, z1) (x2, y2, z2) alpha =
     (fl_interpolate x1 x2 alpha, fl_interpolate y1 y2 alpha, fl_interpolate z1 z2 alpha)"

subsection \<open>Mobject1D (lines 181-197)\<close>

record 'c mobject1d =
  cloud :: "'c pmobject"
  density :: real
  epsilon :: real

text \<open>Line 186; the call of \<open>Mobject.__attrs_post_init__\<close>, which is not under src/,
  is left out.\<close>

definition Mobject1D_post_init ::
  "('c, 'z) mobject1d_scheme \<Rightarrow> error + ('c, 'z) mobject1d_scheme" where
  "Mobject1D_post_init self =
     (if density self = 0 then Inl ZeroDivisionError
      else Inr (self\<lparr>epsilon := 1 / density self\<rparr>))"

text \<open>Lines 189-197, with the float operations rounded; the norm is the double
  nearest to the Euclidean norm of the rounded difference. The field \<open>epsilon\<close> is
  read as it is stored: where a statement needs the double \<open>1.0 / density\<close>, the
  sampler is given with \<open>epsilon = fl (1 / density)\<close>.\<close>

definition add_line ::
  "('c \<Rightarrow> real \<Rightarrow> rgba) \<Rightarrow> ('c \<Rightarrow> 'c) \<Rightarrow> point \<Rightarrow> point \<Rightarrow> 'c option \<Rightarrow> 'c mobject1d \<Rightarrow>
   error \<times> 'c mobject1d + 'c mobject1d" where
  "add_line color_to_rgba Color start end color_arg self =
     (let len = fl (get_norm (fl_sub_point end start));
          sampled =
            (if len = 0 then Inr [start]
             else (case np_arange_rounded 0 1 (fl (epsilon self / len)) of
                     Inl e \<Rightarrow> Inl e
                   | Inr ts \<Rightarrow> Inr (map (\<lambda>t. fl_interpolate_point start end t) ts)))
      in case sampled of
           Inl e \<Rightarrow> Inl (e, self)
         | Inr pts \<Rightarrow>
             (case add_points color_to_rgba Color (PyList pts) None color_arg 1 (cloud self) of
                Inl (e, m) \<Rightarrow> Inl (e, self\<lparr>cloud := m\<rparr>)
              | Inr m \<Rightarrow> Inr (self\<lparr>cloud := m\<rparr>)))"

subsection \<open>PGroup (lines 210-223)\<close>

text \<open>A member handed to a group is any mobject: a \<open>PMobject\<close> (or an instance of
  a subclass), or a mobject of another class, of which only the class name is kept.\<close>

datatype 'c mobject = PMobject_instance "'c pmobject" | Other_instance string

fun isinstance_PMobject :: "'c mobject \<Rightarrow> bool" where
  "isinstance_PMobject (PMobject_instance m) = True"
| "isinstance_PMobject (Other_instance class_name) = False"

record ('k, 'c) pgroup =
  group_kwargs :: 'k
  group_submobjects :: "'c mobject list"

text \<open>\<open>check_pmobs\<close> is an instance method: its first parameter is \<open>self\<close>, the
  checked members are the others.\<close>

definition check_pmobs :: "'c mobject \<Rightarrow> 'c mobject list \<Rightarrow> error + unit" where
  "check_pmobs self pmobs =
     (if list_all isinstance_PMobject pmobs then Inr ()
      else Inl (Exception ''All submobjects must be of type PMobject''))"

text \<open>
  \<open>from_pmobs\<close> is a class method and calls \<open>cls.check_pmobs(*pmobs)\<close> on the class:
  Python binds the first member to the parameter \<open>self\<close> (with no member the call
  lacks an argument: TypeError). Modelled from the spec: \<open>Mobject.add\<close> is not under
  src/; it attaches the members as children, in order.
\<close>

definition from_pmobs :: "'c mobject list \<Rightarrow> 'k \<Rightarrow> error + ('k, 'c) pgroup" where
  "from_pmobs pmobs kwargs =
     (case pmobs of
        [] \<Rightarrow> Inl TypeError
      | first # others \<Rightarrow>
          (case check_pmobs first others of
             Inl e \<Rightarrow> Inl e
           | Inr u \<Rightarrow>
               (let instance = \<lparr>group_kwargs = kwargs, group_submobjects = []\<rparr>
                in Inr (instance\<lparr>group_submobjects := group_submobjects instance @ pmobs\<rparr>))))"

subsection \<open>PointCloudDot (lines 227-245)\<close>

record 'c point_cloud_dot = "'c mobject1d" +
  radius :: real
  center :: point

text \<open>The inner loop of the comprehension for one radial step \<open>r\<close>, then the outer
  loop over the radial steps; the increment \<open>self.epsilon / r\<close> is computed for
  every \<open>r\<close> of the outer range.\<close>

definition dot_ring :: "bool \<Rightarrow> real \<Rightarrow> real \<Rightarrow> error + point list" where
  "dot_ring inf_check eps r =
     (case np_arange_float64 inf_check 0 (2 * pi) (np_divide eps r) of
        Inl e \<Rightarrow> Inl e
      | Inr thetas \<Rightarrow>
          Inr (map (\<lambda>theta. scale_point r
                     (add_point (scale_point (cos theta) RIGHT) (scale_point (sin theta) UP)))
                 thetas))"

fun dot_rings :: "bool \<Rightarrow> real \<Rightarrow> real list \<Rightarrow> error + point list" where
  "dot_rings inf_check eps [] = Inr []"
| "dot_rings inf_check eps (r # rs) =
     (case dot_ring inf_check eps r of
        Inl e \<Rightarrow> Inl e
      | Inr ring \<Rightarrow> (case dot_rings inf_check eps rs of
                      Inl e \<Rightarrow> Inl e
                    | Inr rest \<Rightarrow> Inr (ring @ rest)))"

definition generate_points ::
  "bool \<Rightarrow> ('c \<Rightarrow> real \<Rightarrow> rgba) \<Rightarrow> ('c \<Rightarrow> 'c) \<Rightarrow> 'c point_cloud_dot \<Rightarrow>
   error \<times> 'c point_cloud_dot + 'c point_cloud_dot" where
  "generate_points inf_check color_to_rgba Color self =
     (case np_arange 0 (radius self) (epsilon self) of
        Inl e \<Rightarrow> Inl (e, self)
      | Inr radii \<Rightarrow>
          (case dot_rings inf_check (epsilon self) radii of
             Inl e \<Rightarrow> Inl (e, self)
           | Inr pts \<Rightarrow>
               (case add_points color_to_rgba Color (PyList pts) None None 1 (cloud self) of
                  Inl (e, m) \<Rightarrow> Inl (e, self\<lparr>cloud := m\<rparr>)
                | Inr m \<Rightarrow> Inr (self\<lparr>cloud := m\<rparr>))))"

section \<open>Properties\<close>

subsection \<open>add\_points\<close>

lemma np_append_two_dimensional:
  "two_dimensional values \<Longrightarrow> np_append arr values = Inr (arr @ rows values)"
  by (simp add: np_append_def)



lemma add_points_single_color_gen:
  assumes "two_dimensional pts"
  shows "add_points color_to_rgba Color pts None color_arg alpha self =
           Inr (PMobject (points self @ rows pts)
                  (rgbas self @ replicate (length (rows pts))
                     (color_to_rgba (case color_arg of Some k \<Rightarrow> Color k | None \<Rightarrow> color self) alpha))
                  (stroke_width self) (color self) (submobjects self))"
  using assms by (cases self) (simp add: np_append_two_dimensional split: option.splits)

text \<open>
  C5. When the \<open>rgbas\<close> argument is omitted, the new points are appended at the end
  in their given order and every one of them receives the same colour: the explicit
  \<open>color\<close> argument (passed through \<open>Color\<close>) when it is given, else the node's
  current colour, converted at the given alpha. In particular three points added to
  an empty cloud with colour \<open>C\<close> give exactly those points and three copies of the
  RGBA of \<open>C\<close>.
\<close>

theorem add_points_single_color:
  "(two_dimensional pts \<longrightarrow>
      add_points color_to_rgba Color pts None color_arg alpha self =
        Inr (PMobject (points self @ rows pts)
               (rgbas self @ replicate (length (rows pts))
                  (color_to_rgba (case color_arg of Some k \<Rightarrow> Color k | None \<Rightarrow> color self) alpha))
               (stroke_width self) (color self) (submobjects self)))
   \<and> add_points color_to_rgba Color (PyList [p1, p2, p3]) None (Some C) alpha
         (PMobject [] [] w c subs) =
       Inr (PMobject [p1, p2, p3]
              [color_to_rgba (Color C) alpha, color_to_rgba (Color C) alpha,
               color_to_rgba (Color C) alpha] w c subs)"
  using add_points_single_color_gen[of pts color_to_rgba Color color_arg alpha self]
  by (simp add: np_append_def)

theorem add_points_single_color_witness:
  "two_dimensional (NDArray [(1, 0, 0), (0, 1, 0)])
   \<and> add_points (\<lambda>(r, g, b) a. (r, g, b, a)) id (NDArray [(1, 0, 0), (0, 1, 0)]) None None (1/2)
         (PMobject [(0, 0, 0)] [(0, 0, 0, 1)] 4 (1, 1, 0) []) =
       Inr (PMobject [(0, 0, 0), (1, 0, 0), (0, 1, 0)]
              [(0, 0, 0, 1), (1, 1, 0, 1/2), (1, 1, 0, 1/2)] 4 (1, 1, 0) [])"
  using add_points_single_color[of "NDArray [(1, 0, 0), (0, 1, 0)]" "\<lambda>(r, g, b) a. (r, g, b, a)" id
          None "1/2" "PMobject [(0, 0, 0)] [(0, 0, 0, 1)] 4 (1, 1, 0) []"]
  by (simp add: numeral_2_eq_2)

subsection \<open>Loops over the family\<close>

lemma pm_inv_family:
  "pm_inv m \<longleftrightarrow> (\<forall>n \<in> set (get_family m). length (points n) = length (rgbas n))"
  by (induction m) auto

lemma for_family_inv:
  fixes body :: "point list \<times> rgba list \<Rightarrow> error \<times> (point list \<times> rgba list) + point list \<times> rgba list"
  assumes body: "\<And>ps rs. length ps = length rs \<Longrightarrow>
            (case body (ps, rs) of Inl (e, (ps', rs')) \<Rightarrow> length ps' = length rs'
                                 | Inr (ps', rs') \<Rightarrow> length ps' = length rs')"
  shows "pm_inv (m :: 'c pmobject) \<Longrightarrow>
           (case for_family_members_with_points body m of
              Inl (e, m') \<Rightarrow> pm_inv m' | Inr m' \<Rightarrow> pm_inv m')"
    and "(\<forall>m \<in> set (ms :: 'c pmobject list). pm_inv m) \<Longrightarrow>
           (case for_each_with_points body ms of
              Inl (e, ms') \<Rightarrow> (\<forall>m \<in> set ms'. pm_inv m) | Inr ms' \<Rightarrow> (\<forall>m \<in> set ms'. pm_inv m))"
  using body
proof (induction body m and body ms rule: for_family_members_with_points_for_each_with_points.induct)
  case (1 body ps rs w c subs)
  from "1.prems"(1) have len: "length ps = length rs" and subs: "\<forall>m \<in> set subs. pm_inv m"
    by simp_all
  let ?r = "if ps = [] then Inr (ps, rs) else body (ps, rs)"
  have r: "case ?r of Inl (e, (ps', rs')) \<Rightarrow> length ps' = length rs'
                    | Inr (ps', rs') \<Rightarrow> length ps' = length rs'"
    using "1.prems"(2)[OF len] len by auto
  show ?case
  proof (cases ?r)
    case (Inl failure)
    then obtain e ps' rs' where f: "?r = Inl (e, (ps', rs'))" by (cases failure) auto
    with r subs show ?thesis by simp
  next
    case (Inr arrays)
    then obtain ps' rs' where a: "?r = Inr (ps', rs')" by (cases arrays) auto
    from "1.IH"[OF a refl subs "1.prems"(2)] r a show ?thesis
      by (simp split: sum.splits prod.splits)
  qed
next
  case (2 body)
  then show ?case by simp
next
  case (3 body m ms)
  then show ?case by (auto split: sum.splits prod.splits)
qed

lemma for_family_returns:
  fixes body :: "point list \<times> rgba list \<Rightarrow> error \<times> (point list \<times> rgba list) + point list \<times> rgba list"
  assumes body: "\<And>ps rs. length ps = length rs \<Longrightarrow> ps \<noteq> [] \<Longrightarrow> body (ps, rs) = Inr (g (ps, rs))"
    and nil: "g ([], []) = ([], [])"
  shows "pm_inv (m :: 'c pmobject) \<Longrightarrow>
           \<exists>m'. for_family_members_with_points body m = Inr m' \<and>
                map (\<lambda>n. (points n, rgbas n)) (get_family m') =
                map (\<lambda>n. g (points n, rgbas n)) (get_family m)"
    and "(\<forall>m \<in> set (ms :: 'c pmobject list). pm_inv m) \<Longrightarrow>
           \<exists>ms'. for_each_with_points body ms = Inr ms' \<and>
                map (\<lambda>n. (points n, rgbas n)) (concat (map get_family ms')) =
                map (\<lambda>n. g (points n, rgbas n)) (concat (map get_family ms))"
  using body
proof (induction body m and body ms rule: for_family_members_with_points_for_each_with_points.induct)
  case (1 body ps rs w c subs)
  from "1.prems"(1) have len: "length ps = length rs" and subs: "\<forall>m \<in> set subs. pm_inv m"
    by simp_all
  let ?r = "if ps = [] then Inr (ps, rs) else body (ps, rs)"
  have r: "?r = Inr (g (ps, rs))"
    using "1.prems"(2)[OF len] len nil by auto
  obtain ps' rs' where g: "g (ps, rs) = (ps', rs')" by (cases "g (ps, rs)")
  from "1.IH"[OF r[unfolded g] refl subs "1.prems"(2)]
  obtain subs' where s: "for_each_with_points body subs = Inr subs'"
    and fam: "map (\<lambda>n. (points n, rgbas n)) (concat (map get_family subs')) =
              map (\<lambda>n. g (points n, rgbas n)) (concat (map get_family subs))"
    by blast
  have "for_family_members_with_points body (PMobject ps rs w c subs) = Inr (PMobject ps' rs' w c subs')"
    using r g s by simp
  moreover have "map (\<lambda>n. (points n, rgbas n)) (get_family (PMobject ps' rs' w c subs')) =
        map (\<lambda>n. g (points n, rgbas n)) (get_family (PMobject ps rs w c subs))"
    using fam g by simp
  ultimately show ?case by blast
next
  case (2 body)
  then show ?case by simp
next
  case (3 body m ms)
  from "3.prems"(1) have m: "pm_inv m" and ms: "\<forall>m \<in> set ms. pm_inv m" by simp_all
  from "3.IH"(1)[OF m "3.prems"(2)] obtain m' where
    m': "for_family_members_with_points body m = Inr m'"
    and fm: "map (\<lambda>n. (points n, rgbas n)) (get_family m') =
             map (\<lambda>n. g (points n, rgbas n)) (get_family m)" by blast
  from "3.IH"(2)[OF m' ms "3.prems"(2)] obtain ms' where
    ms': "for_each_with_points body ms = Inr ms'"
    and fms: "map (\<lambda>n. (points n, rgbas n)) (concat (map get_family ms')) =
              map (\<lambda>n. g (points n, rgbas n)) (concat (map get_family ms))" by blast
  have "for_each_with_points body (m # ms) = Inr (m' # ms')" using m' ms' by simp
  moreover have "map (\<lambda>n. (points n, rgbas n)) (concat (map get_family (m' # ms'))) =
                 map (\<lambda>n. g (points n, rgbas n)) (concat (map get_family (m # ms)))"
    using fm fms by simp
  ultimately show ?case by blast
qed

lemma map_eq_list_all2:
  "(map f xs = map g ys) = list_all2 (\<lambda>x y. f x = g y) xs ys"
proof -
  have "(map f xs = map g ys) = list_all2 (=) (map f xs) (map g ys)"
    by (simp only: list.rel_eq)
  then show ?thesis by (simp only: list_all2_map1 list_all2_map2)
qed

lemma length_filter_paired:
  "length ps = length rs \<Longrightarrow>
   length (filter f ps) = length (filter (\<lambda>(p, c). f p) (zip ps rs))"
  by (induction ps rs rule: list_induct2) auto

subsection \<open>filter\_out\<close>

lemma mask_rows_points:
  "map snd (filter fst (zip (map f ps) ps)) = filter f ps"
  by (induction ps) auto

lemma mask_rows_paired:
  "map snd (filter fst (zip (map f ps) rs)) = map snd (filter (\<lambda>(p, c). f p) (zip ps rs))"
  by (induction ps arbitrary: rs) (auto simp: zip_Cons1 split: list.splits)

lemma zip_filter_paired:
  "length ps = length rs \<Longrightarrow>
   zip (filter f ps) (map snd (filter (\<lambda>(p, c). f p) (zip ps rs))) = filter (\<lambda>(p, c). f p) (zip ps rs)"
  by (induction ps rs rule: list_induct2) auto

lemma filter_out_arrays_returns:
  "length ps = length rs \<Longrightarrow>
   filter_out_arrays condition (ps, rs) =
     Inr (filter (\<lambda>p. \<not> condition p) ps,
          map snd (filter (\<lambda>(p, c). \<not> condition p) (zip ps rs)))"
  by (simp add: filter_out_arrays_def mask_rows_def mask_rows_points mask_rows_paired)

text \<open>
  C2, as the claim states it, fails: \<open>filter_out\<close> keeps the rows of the mask
  \<open>~condition\<close>, so the points for which the predicate is true are the ones
  removed. On the spec's example the result is the single point \<open>(2, 0, 0)\<close>, not
  \<open>[(0, 0, 0), (1, 0, 0)]\<close>.
\<close>

theorem filter_out_example_counterexample:
  "filter_out (\<lambda>(x, y, z). x < 3/2)
     (PMobject [(0, 0, 0), (1, 0, 0), (2, 0, 0)] [(1, 0, 0, 1), (0, 1, 0, 1), (0, 0, 1, 1)]
        4 ''WHITE'' []) =
   Inr (PMobject [(2, 0, 0)] [(0, 0, 1, 1)] 4 ''WHITE'' [])
   \<and> filter_out (\<lambda>(x, y, z). x < 3/2)
     (PMobject [(0, 0, 0), (1, 0, 0), (2, 0, 0)] [(1, 0, 0, 1), (0, 1, 0, 1), (0, 0, 1, 1)]
        4 ''WHITE'' []) \<noteq>
   Inr (PMobject [(0, 0, 0), (1, 0, 0)] [(1, 0, 0, 1), (0, 1, 0, 1)] 4 ''WHITE'' [])"
  by (simp add: filter_out_def filter_out_arrays_def mask_rows_def)

text \<open>
  C2, amended. When the arrays of every family member have equal length,
  \<open>filter_out\<close> returns, the family keeps its members in order, and each member
  keeps exactly the points, with their paired colours, for which the predicate is
  false, in their relative order.
\<close>

theorem filter_out_removes_matching:
  assumes "pm_inv self"
  shows "\<exists>self'. filter_out condition self = Inr self' \<and> pm_inv self' \<and>
           map points (get_family self') =
             map (\<lambda>m. filter (\<lambda>p. \<not> condition p) (points m)) (get_family self) \<and>
           map (\<lambda>m. zip (points m) (rgbas m)) (get_family self') =
             map (\<lambda>m. filter (\<lambda>(p, c). \<not> condition p) (zip (points m) (rgbas m)))
               (get_family self)"
proof -
  let ?g = "\<lambda>(ps :: point list, rs :: rgba list).
              (filter (\<lambda>p. \<not> condition p) ps,
               map snd (filter (\<lambda>(p, c). \<not> condition p) (zip ps rs)))"
  have "\<exists>m'. for_family_members_with_points (filter_out_arrays condition) self = Inr m' \<and>
          map (\<lambda>n. (points n, rgbas n)) (get_family m') =
          map (\<lambda>n. ?g (points n, rgbas n)) (get_family self)"
    by (rule for_family_returns(1)[where g = ?g]) (simp_all add: filter_out_arrays_returns assms)
  then obtain self' where ret: "filter_out condition self = Inr self'"
    and fam: "list_all2 (\<lambda>n' n. (points n', rgbas n') = ?g (points n, rgbas n))
                (get_family self') (get_family self)"
    by (auto simp: filter_out_def map_eq_list_all2)
  have body_inv: "\<And>ps rs. length ps = length rs \<Longrightarrow>
      (case filter_out_arrays condition (ps, rs) of
         Inl (e, (ps', rs')) \<Rightarrow> length ps' = length rs'
       | Inr (ps', rs') \<Rightarrow> length ps' = length rs')"
    using length_filter_paired[of _ _ "\<lambda>p. \<not> condition p"]
    by (simp add: filter_out_arrays_returns)
  have inv: "pm_inv self'"
    using for_family_inv(1)[of "filter_out_arrays condition" self, OF body_inv assms] ret by (simp add: filter_out_def)
  have pts: "list_all2 (\<lambda>n' n. points n' = filter (\<lambda>p. \<not> condition p) (points n))
               (get_family self') (get_family self)"
    using fam by (rule list_all2_mono) simp
  have zs: "list_all2 (\<lambda>n' n. zip (points n') (rgbas n') =
                 filter (\<lambda>(p, c). \<not> condition p) (zip (points n) (rgbas n)))
               (get_family self') (get_family self)"
    using fam
  proof (rule list.rel_mono_strong)
    fix n' n
    assume "n \<in> set (get_family self)"
      and "(points n', rgbas n') = ?g (points n, rgbas n)"
    with assms show "zip (points n') (rgbas n') =
                 filter (\<lambda>(p, c). \<not> condition p) (zip (points n) (rgbas n))"
      by (simp add: pm_inv_family zip_filter_paired)
  qed
  from ret inv pts zs show ?thesis by (auto simp: map_eq_list_all2)
qed

theorem filter_out_removes_matching_witness:
  "pm_inv (PMobject [(0, 0, 0), (2, 0, 0)] [(1, 0, 0, 1), (0, 0, 1, 1)] 4 ''WHITE''
            [PMobject [(1, 0, 0)] [(0, 1, 0, 1)] 2 ''RED'' []])
   \<and> (\<exists>self'. filter_out (\<lambda>(x, y, z). x < 3/2)
                 (PMobject [(0, 0, 0), (2, 0, 0)] [(1, 0, 0, 1), (0, 0, 1, 1)] 4 ''WHITE''
                    [PMobject [(1, 0, 0)] [(0, 1, 0, 1)] 2 ''RED'' []]) = Inr self'
        \<and> pm_inv self'
        \<and> map points (get_family self') = [[(2, 0, 0)], []]
        \<and> map (\<lambda>m. zip (points m) (rgbas m)) (get_family self') =
            [[((2, 0, 0), (0, 0, 1, 1))], []])"
  using filter_out_removes_matching
          [of "PMobject [(0, 0, 0), (2, 0, 0)] [(1, 0, 0, 1), (0, 0, 1, 1)] 4 ''WHITE''
                 [PMobject [(1, 0, 0)] [(0, 1, 0, 1)] 2 ''RED'' []]"
              "\<lambda>(x, y, z). x < 3/2"]
  by simp

subsection \<open>thin\_out\<close>

text \<open>
  C6. The code does not thin a family member by that member's own count: on a
  receiver with five points and a child with five points, \<open>thin_out(2)\<close> leaves the
  receiver with the rows 0, 2, 4 and the child with the rows 0, 2 only, because the
  index range for the child is built from the receiver's count after thinning (3).
\<close>

theorem thin_out_uses_receiver_count:
  "thin_out 2
     (PMobject [p0, p1, p2, p3, p4] [c0, c1, c2, c3, c4] w c
        [PMobject [q0, q1, q2, q3, q4] [d0, d1, d2, d3, d4] w' c' []]) =
   Inr (PMobject [p0, p2, p4] [c0, c2, c4] w c
        [PMobject [q0, q2] [d0, d2] w' c' []])"
  by (simp add: apply_over_attr_arrays_def thin_array_def np_arange_int_def take_rows_def
        upt_conv_Cons)

subsection \<open>point\_from\_proportion\<close>

text \<open>
  C3. The index \<open>alpha * (N - 1)\<close> is not rounded: for a float \<open>alpha\<close> it is a
  float, which numpy refuses as an index. So \<open>point_from_proportion\<close> raises
  IndexError for every float \<open>alpha\<close>, on the five-point cloud with \<open>alpha = 0.5\<close>
  too.
\<close>

theorem point_from_proportion_float_index:
  "point_from_proportion self (PyFloat alpha) = Inl IndexError
   \<and> point_from_proportion
        (PMobject [(0, 0, 0), (1, 0, 0), (2, 0, 0), (3, 0, 0), (4, 0, 0)]
           (replicate 5 (1, 1, 1, 1)) 4 ''WHITE'' []) (PyFloat (1/2)) = Inl IndexError"
  by (simp add: point_from_proportion_def)

subsection \<open>PGroup\<close>

text \<open>
  C7. \<open>from_pmobs\<close> does not check its first member: a group is built from a first
  member that is not a \<open>PMobject\<close>, and that member is attached. With no member
  at all the call raises TypeError; a non-conforming member in a later position is
  refused.
\<close>

theorem from_pmobs_skips_first_member:
  "from_pmobs [Other_instance ''VMobject'', PMobject_instance m] kwargs =
     Inr \<lparr>group_kwargs = kwargs,
          group_submobjects = [Other_instance ''VMobject'', PMobject_instance m]\<rparr>
   \<and> from_pmobs ([] :: 'c mobject list) kwargs = Inl TypeError
   \<and> from_pmobs [PMobject_instance m, Other_instance ''VMobject''] kwargs =
       Inl (Exception ''All submobjects must be of type PMobject'')"
  by (simp add: from_pmobs_def check_pmobs_def)

subsection \<open>interpolate\_color\<close>

lemma interpolate_0: "interpolate x y 0 = x"
  by (simp add: interpolate_def)

lemma interpolate_1: "interpolate x y 1 = y"
  by (simp add: interpolate_def)

lemma interpolate_rgba_0: "interpolate_rgba x y 0 = x"
  by (cases x; cases y) (simp add: interpolate_0)

lemma interpolate_rgba_1: "interpolate_rgba x y 1 = y"
  by (cases x; cases y) (simp add: interpolate_1)

lemma map2_fst: "length xs = length ys \<Longrightarrow> map2 (\<lambda>x y. x) xs ys = xs"
  by (induction xs ys rule: list_induct2) auto

lemma map2_snd: "length xs = length ys \<Longrightarrow> map2 (\<lambda>x y. y) xs ys = ys"
  by (induction xs ys rule: list_induct2) auto

lemma set_stroke_width_of_family_arrays:
  "points (set_stroke_width_of_family width m) = points m"
  "rgbas (set_stroke_width_of_family width m) = rgbas m"
  "stroke_width (set_stroke_width_of_family width m) =
     (if points m = [] then stroke_width m else width)"
  by (cases m; simp)+

text \<open>
  C9. For two mobjects whose colour arrays have equal length, \<open>interpolate_color\<close>
  at \<open>alpha = 0\<close> returns with the receiver's colour array equal to the first
  mobject's, and at \<open>alpha = 1\<close> equal to the second's. The interpolated stroke
  width is the first mobject's at 0 and the second's at 1; \<open>set_stroke_width\<close>
  stores it in the receiver when the receiver has points (it loops over the family
  members with points).
\<close>

theorem interpolate_color_endpoints:
  assumes "length (rgbas mobject1) = length (rgbas mobject2)"
  shows "\<exists>s0 s1.
           interpolate_color self mobject1 mobject2 0 = Inr s0 \<and> rgbas s0 = rgbas mobject1 \<and>
           interpolate_color self mobject1 mobject2 1 = Inr s1 \<and> rgbas s1 = rgbas mobject2 \<and>
           interpolate (get_stroke_width mobject1) (get_stroke_width mobject2) 0 =
             get_stroke_width mobject1 \<and>
           interpolate (get_stroke_width mobject1) (get_stroke_width mobject2) 1 =
             get_stroke_width mobject2 \<and>
           (points self \<noteq> [] \<longrightarrow>
              get_stroke_width s0 = get_stroke_width mobject1 \<and>
              get_stroke_width s1 = get_stroke_width mobject2)"
  using assms
  by (cases self)
     (simp add: np_broadcast2_def interpolate_rgba_0 interpolate_rgba_1 map2_fst map2_snd
        interpolate_0 interpolate_1 get_stroke_width_def)

theorem interpolate_color_endpoints_witness:
  "length (rgbas (PMobject [(0, 0, 0)] [(1, 0, 0, 1)] 2 ''RED'' [])) =
   length (rgbas (PMobject [(1, 1, 1)] [(0, 0, 1, 1)] 6 ''BLUE'' []))
   \<and> interpolate_color (PMobject [(5, 5, 5)] [(0, 0, 0, 0)] 4 ''WHITE'' [])
        (PMobject [(0, 0, 0)] [(1, 0, 0, 1)] 2 ''RED'' [])
        (PMobject [(1, 1, 1)] [(0, 0, 1, 1)] 6 ''BLUE'' []) 0 =
      Inr (PMobject [(5, 5, 5)] [(1, 0, 0, 1)] 2 ''WHITE'' [])
   \<and> interpolate_color (PMobject [(5, 5, 5)] [(0, 0, 0, 0)] 4 ''WHITE'' [])
        (PMobject [(0, 0, 0)] [(1, 0, 0, 1)] 2 ''RED'' [])
        (PMobject [(1, 1, 1)] [(0, 0, 1, 1)] 6 ''BLUE'' []) 1 =
      Inr (PMobject [(5, 5, 5)] [(0, 0, 1, 1)] 6 ''WHITE'' [])"
  using interpolate_color_endpoints
          [of "PMobject [(0, 0, 0)] [(1, 0, 0, 1)] 2 ''RED'' []"
              "PMobject [(1, 1, 1)] [(0, 0, 1, 1)] 6 ''BLUE'' []"
              "PMobject [(5, 5, 5)] [(0, 0, 0, 0)] 4 ''WHITE'' []"]
  by (simp add: np_broadcast2_def interpolate_def get_stroke_width_def)

subsection \<open>Rounding to float64\<close>

lemma round_half_even_ge: "of_int m \<le> y \<Longrightarrow> m \<le> round_half_even y"
proof -
  assume "of_int m \<le> y"
  then have "m \<le> \<lfloor>y\<rfloor>" by (simp add: le_floor_iff)
  then show ?thesis by (simp add: round_half_even_def Let_def)
qed

lemma round_half_even_le: "y \<le> of_int m \<Longrightarrow> round_half_even y \<le> m"
proof -
  assume a: "y \<le> of_int m"
  show ?thesis
  proof (cases "y = of_int m")
    case True then show ?thesis by (simp add: round_half_even_def)
  next
    case False
    then have "y < of_int m" using a by simp
    then have "\<lfloor>y\<rfloor> < m" by (simp add: floor_less_iff)
    then show ?thesis by (auto simp: round_half_even_def Let_def)
  qed
qed

lemma round_half_even_of_int: "round_half_even (of_int m) = m"
  by (simp add: round_half_even_def)

lemma fl_zero: "fl 0 = 0"
  by (simp add: fl_def)

lemma fl_eval:
  assumes "2 powr of_int k \<le> \<bar>x\<bar>" and "\<bar>x\<bar> < 2 powr of_int (k + 1)"
    and "round_half_even (x / 2 powr of_int (k - 52)) = m"
  shows "fl x = of_int m * 2 powr of_int (k - 52)"
proof -
  have pos: "0 < \<bar>x\<bar>" using assms(1) by (smt (verit) powr_gt_zero)
  then have "\<lfloor>log 2 \<bar>x\<bar>\<rfloor> = k"
    using assms(1,2) by (simp add: floor_log_eq_powr_iff)
  then show ?thesis using pos assms(3) by (simp add: fl_def Let_def)
qed

lemma fl_pos: "0 < x \<Longrightarrow> 0 < fl x"
proof -
  assume x: "0 < x"
  define k where "k = \<lfloor>log 2 \<bar>x\<bar>\<rfloor>"
  have "2 powr of_int k \<le> \<bar>x\<bar>"
    using x floor_log_eq_powr_iff[of "\<bar>x\<bar>" 2 k] by (simp add: k_def)
  then have "2 powr of_int k \<le> x" using x by simp
  have u: "0 < (2::real) powr of_int (k - 52)" by simp
  have "2 powr of_int (k - 52) \<le> (2::real) powr of_int k" by simp
  then have "2 powr of_int (k - 52) \<le> x" using \<open>2 powr of_int k \<le> x\<close> by linarith
  then have "of_int 1 \<le> x / 2 powr of_int (k - 52)" using u by (simp add: pos_le_divide_eq)
  then have "1 \<le> round_half_even (x / 2 powr of_int (k - 52))" by (rule round_half_even_ge)
  then have "0 < real_of_int (round_half_even (x / 2 powr of_int (k - 52)))" by simp
  then show ?thesis using x u by (simp add: fl_def Let_def k_def)
qed

lemma fl_eval_neg:
  assumes "1 / 2 ^ n \<le> \<bar>x\<bar>" and "\<bar>x\<bar> < 2 / 2 ^ n"
    and "round_half_even (x * 2 ^ (n + 52)) = m"
  shows "fl x = of_int m / 2 ^ (n + 52)"
proof -
  have a: "(2::real) powr (- real n) = 1 / 2 ^ n"
    by (simp add: powr_minus powr_realpow divide_inverse)
  have b: "(2::real) powr (1 - real n) = 2 / 2 ^ n"
    by (simp add: powr_diff powr_realpow)
  have "(2::real) powr (- real n - 52) = 2 powr (- real (n + 52))" by simp
  also have "\<dots> = inverse (2 powr real (n + 52))" by (rule powr_minus)
  also have "\<dots> = inverse (2 ^ (n + 52))" by (subst powr_realpow) simp_all
  finally have c: "(2::real) powr (- real n - 52) = 1 / 2 ^ (n + 52)"
    by (simp only: divide_inverse mult_1)
  show ?thesis
    using fl_eval[of "- int n" x m] assms by (simp add: a b c)
qed

lemma fl_eval_pos:
  assumes "2 ^ n \<le> \<bar>x\<bar>" and "\<bar>x\<bar> < 2 * 2 ^ n" and "n \<le> 52"
    and "round_half_even (x * 2 ^ (52 - n)) = m"
  shows "fl x = of_int m / 2 ^ (52 - n)"
proof -
  have a: "(2::real) powr real n = 2 ^ n"
    by (simp add: powr_realpow)
  have b: "(2::real) powr (real n + 1) = 2 * 2 ^ n"
    by (simp add: powr_add powr_realpow)
  have "real n - 52 = - real (52 - n)" using assms(3) by (simp add: of_nat_diff)
  then have "(2::real) powr (real n - 52) = 2 powr (- real (52 - n))" by (simp only:)
  also have "\<dots> = inverse (2 powr real (52 - n))" by (rule powr_minus)
  also have "\<dots> = inverse (2 ^ (52 - n))" by (subst powr_realpow) simp_all
  finally have c: "(2::real) powr (real n - 52) = 1 / 2 ^ (52 - n)"
    by (simp only: divide_inverse mult_1)
  show ?thesis
    using fl_eval[of "int n" x m] assms by (simp add: a b c)
qed

lemma fl_one: "fl 1 = 1"
  using fl_eval_pos[of 0 1 "2 ^ 52"] by (simp add: round_half_even_def)

lemma fl_third: "fl (1 / 3) = 6004799503160661 / 2 ^ 54"
  using fl_eval_neg[of 2 "1/3" 6004799503160661] by (simp add: round_half_even_def)

lemma fl_15: "fl 15 = 15"
  using fl_eval_pos[of 3 15 "15 * 2 ^ 49"] by (simp add: round_half_even_def)

lemma fl_step: "fl (6004799503160661 / 2 ^ 54 / 15) = 3202559735019019 / 2 ^ 57"
  using fl_eval_neg[of 6 "6004799503160661 / 2 ^ 54 / 15" 6405119470038038]
  by (simp add: round_half_even_def)

lemma pow2_split:
  "(2::real) powr of_int k = 2 ^ 52 * 2 powr of_int (k - 52)"
  "(2::real) powr of_int (k + 1) = 2 ^ 53 * 2 powr of_int (k - 52)"
proof -
  have "(2::real) powr of_int k = 2 powr (52 + of_int (k - 52))" by simp
  also have "\<dots> = 2 powr 52 * 2 powr of_int (k - 52)" by (rule powr_add)
  finally show "(2::real) powr of_int k = 2 ^ 52 * 2 powr of_int (k - 52)" by simp
  have "(2::real) powr of_int (k + 1) = 2 powr (53 + of_int (k - 52))"
    by (simp add: add.commute)
  also have "\<dots> = 2 powr 53 * 2 powr of_int (k - 52)" by (rule powr_add)
  finally show "(2::real) powr of_int (k + 1) = 2 ^ 53 * 2 powr of_int (k - 52)" by simp
qed

lemma fl_pos_form:
  assumes "0 < x"
  shows "\<exists>k. 2 powr of_int k \<le> x \<and> x < 2 powr of_int (k + 1) \<and>
             fl x = of_int (round_half_even (x / 2 powr of_int (k - 52))) *
                      2 powr of_int (k - 52)"
proof -
  define k where "k = \<lfloor>log 2 x\<rfloor>"
  have "2 powr of_int k \<le> x \<and> x < 2 powr of_int (k + 1)"
    using assms floor_log_eq_powr_iff[of x 2 k] by (simp add: k_def)
  moreover have "fl x = of_int (round_half_even (x / 2 powr of_int (k - 52))) * 2 powr of_int (k - 52)"
    using assms by (simp add: fl_def Let_def k_def)
  ultimately show ?thesis by blast
qed

lemma round_half_even_le_half: "y < of_int m + 1 / 2 \<Longrightarrow> round_half_even y \<le> m"
proof -
  assume a: "y < of_int m + 1 / 2"
  then have "y < of_int m + 1" by simp
  then have f: "\<lfloor>y\<rfloor> \<le> m" by (simp add: floor_le_iff)
  show ?thesis
  proof (cases "\<lfloor>y\<rfloor> = m")
    case True
    then have "y - of_int \<lfloor>y\<rfloor> < 1 / 2" using a by simp
    then show ?thesis using True by (simp add: round_half_even_def Let_def)
  next
    case False
    then have "\<lfloor>y\<rfloor> + 1 \<le> m" using f by simp
    then show ?thesis by (auto simp: round_half_even_def Let_def)
  qed
qed

lemma fl_le_scaled:
  assumes u: "0 < u" and fx: "fl x = of_int (round_half_even (x / u)) * u"
    and le: "x \<le> of_int m * u"
  shows "fl x \<le> of_int m * u"
proof -
  have "x / u \<le> of_int m" using u le by (simp add: pos_divide_le_eq)
  then have "round_half_even (x / u) \<le> m" by (rule round_half_even_le)
  then have "real_of_int (round_half_even (x / u)) \<le> real_of_int m" by (simp only: of_int_le_iff)
  then show ?thesis using u fx by (simp add: mult_right_mono)
qed

lemma fl_le_pow2:
  assumes "0 < x" and "x \<le> 2 powr of_int j"
  shows "fl x \<le> 2 powr of_int j"
proof -
  obtain k where k: "2 powr of_int k \<le> x" "x < 2 powr of_int (k + 1)"
    and f: "fl x = of_int (round_half_even (x / 2 powr of_int (k - 52))) * 2 powr of_int (k - 52)"
    using fl_pos_form[OF assms(1)] by blast
  let ?u = "2 powr of_int (k - 52) :: real"
  have u: "0 < ?u" by simp
  have "(2::real) powr of_int k \<le> 2 powr of_int j" using k(1) assms(2) by linarith
  then have kj: "k \<le> j" by simp
  show ?thesis
  proof (cases "k = j")
    case True
    have "x \<le> of_int (2 ^ 52) * ?u" using assms(2) True pow2_split(1)[of k] by simp
    then have "fl x \<le> of_int (2 ^ 52) * ?u" by (rule fl_le_scaled[OF u f])
    then show ?thesis using True pow2_split(1)[of k] by simp
  next
    case False
    then have "k + 1 \<le> j" using kj by simp
    then have le: "(2::real) powr of_int (k + 1) \<le> 2 powr of_int j" by simp
    have "x \<le> of_int (2 ^ 53) * ?u" using k(2) pow2_split(2)[of k] by simp
    then have "fl x \<le> of_int (2 ^ 53) * ?u" by (rule fl_le_scaled[OF u f])
    then have "fl x \<le> 2 powr of_int (k + 1)" using pow2_split(2)[of k] by simp
    then show ?thesis using le by linarith
  qed
qed

lemma fl_nonneg: "0 \<le> x \<Longrightarrow> 0 \<le> fl x"
  using fl_pos[of x] fl_zero by (cases "x = 0") auto

lemma fl_idem_pos:
  assumes "0 < x"
  shows "fl (fl x) = fl x"
proof -
  obtain k where k: "2 powr of_int k \<le> x" "x < 2 powr of_int (k + 1)"
    and f: "fl x = of_int (round_half_even (x / 2 powr of_int (k - 52))) * 2 powr of_int (k - 52)"
    using fl_pos_form[OF assms(1)] by blast
  let ?u = "2 powr of_int (k - 52) :: real"
  let ?m = "round_half_even (x / ?u)"
  have u: "0 < ?u" by simp
  have "of_int (2 ^ 52) * ?u \<le> x" using k(1) pow2_split(1)[of k] by simp
  then have "of_int (2 ^ 52) \<le> x / ?u" using u by (simp add: pos_le_divide_eq)
  then have lo: "2 ^ 52 \<le> ?m" by (rule round_half_even_ge)
  have "x \<le> of_int (2 ^ 53) * ?u" using k(2) pow2_split(2)[of k] by simp
  then have "x / ?u \<le> of_int (2 ^ 53)" using u by (simp add: pos_divide_le_eq)
  then have hi: "?m \<le> 2 ^ 53" by (rule round_half_even_le)
  have lo': "(2 ^ 52 :: real) \<le> of_int ?m" using lo by (metis of_int_le_iff of_int_numeral of_int_power)
  have pos: "0 < fl x" using assms by (rule fl_pos)
  show ?thesis
  proof (cases "?m = 2 ^ 53")
    case True
    have z: "fl x = 2 powr of_int (k + 1)" using f True pow2_split(2)[of k] by simp
    have a: "2 powr of_int (k + 1) \<le> \<bar>fl x\<bar>" using z by simp
    have b: "\<bar>fl x\<bar> < 2 powr of_int (k + 1 + 1)" using z by simp
    have "fl x / 2 powr of_int (k + 1 - 52) = of_int (2 ^ 52)"
      using z pow2_split(1)[of "k + 1"] by simp
    then have c: "round_half_even (fl x / 2 powr of_int (k + 1 - 52)) = 2 ^ 52"
      by (simp only: round_half_even_of_int)
    have "fl (fl x) = of_int (2 ^ 52) * 2 powr of_int (k + 1 - 52)"
      by (rule fl_eval[OF a b c])
    then show ?thesis using z pow2_split(1)[of "k + 1"] by simp
  next
    case False
    then have "?m < 2 ^ 53" using hi by simp
    then have hi': "of_int ?m < (2 ^ 53 :: real)"
      by (metis of_int_less_iff of_int_numeral of_int_power)
    have a: "2 powr of_int k \<le> \<bar>fl x\<bar>"
      using f lo' u pow2_split(1)[of k] by (simp add: mult_right_mono)
    have b: "\<bar>fl x\<bar> < 2 powr of_int (k + 1)"
      using f hi' u pos pow2_split(2)[of k] by (simp add: mult_strict_right_mono)
    have "fl x / ?u = of_int ?m" using f u by simp
    then have c: "round_half_even (fl x / ?u) = ?m" by (simp only: round_half_even_of_int)
    have "fl (fl x) = of_int ?m * ?u" by (rule fl_eval[OF a b c])
    then show ?thesis using f by simp
  qed
qed

lemma fl_below_one:
  assumes "0 \<le> y" and "y < 1 - 1 / 2 ^ 54"
  shows "fl y \<le> 1 - 1 / 2 ^ 53"
proof (cases "y \<le> 1 / 2")
  case True
  show ?thesis
  proof (cases "y = 0")
    case True then show ?thesis by (simp add: fl_zero)
  next
    case False
    then have "0 < y" using assms(1) by simp
    have h: "(2::real) powr of_int (- 1) = 1 / 2" using powr_neg_one[of "2::real"] by simp
    have "y \<le> 2 powr of_int (- 1)" using True by (simp only: h)
    with \<open>0 < y\<close> have "fl y \<le> 2 powr of_int (- 1)" by (rule fl_le_pow2)
    then have "fl y \<le> 1 / 2" by (simp only: h)
    then show ?thesis by simp
  qed
next
  case False
  let ?m = "round_half_even (y * 2 ^ (1 + 52))"
  have a: "1 / 2 ^ 1 \<le> \<bar>y\<bar>" using False by simp
  have b: "\<bar>y\<bar> < 2 / 2 ^ 1" using assms by simp
  have f: "fl y = of_int ?m / 2 ^ (1 + 52)" using fl_eval_neg[OF a b refl] .
  have "y * 2 ^ (1 + 52) < of_int (2 ^ 53 - 1) + 1 / 2" using assms(2) by simp
  then have "?m \<le> 2 ^ 53 - 1" by (rule round_half_even_le_half)
  then have "real_of_int ?m \<le> real_of_int (2 ^ 53 - 1)" by (simp only: of_int_le_iff)
  then show ?thesis using f by (simp add: field_simps)
qed

lemma less_nat_ceiling: "i < nat \<lceil>x\<rceil> \<Longrightarrow> real i < x"
  by (metis less_ceiling_iff of_int_of_nat_eq zless_nat_conj nat_int)

lemma sample_below_one:
  fixes i :: nat
  assumes s: "0 < s" and i0: "0 < i" and i53: "i < 2 ^ 53" and lt: "real i < fl (1 / s)"
  shows "real i * s < 1 - 1 / 2 ^ 54"
proof -
  obtain e where e: "2 ^ e \<le> i" "i < 2 ^ (e + 1)" using ex_power_ivl1[of 2 i] i0 by auto
  have "(2::nat) ^ e < 2 ^ 53" using e(1) i53 by linarith
  then have "e < 53" by (rule power_less_imp_less_exp[of "2::nat", rotated]) simp
  then have e52: "e \<le> 52" by simp
  define N :: nat where "N = 2 ^ (52 - e)"
  have Npos: "0 < N" by (simp add: N_def)
  have top: "2 ^ (e + 1) * N = (2::nat) ^ 53"
    unfolding N_def using e52 by (simp add: power_add[symmetric] del: power_Suc)
  have "i * N < 2 ^ (e + 1) * N" using e(2) Npos by simp
  then have "i * N < 2 ^ 53" by (simp only: top)
  then have iN: "i * N + 1 \<le> 2 ^ 53" by linarith
  have "real (i * N + 1) \<le> real (2 ^ 53)" using iN by (simp only: of_nat_le_iff)
  then have iNr: "real i * real N + 1 \<le> 2 ^ 53" by simp
  have topr: "2 ^ (e + 1) * real N = 2 ^ 53"
    using top by (metis of_nat_mult of_nat_numeral of_nat_power)
  have nr: "0 < real N" using Npos by simp
  have Pe: "(2::real) powr of_int (int e) = 2 ^ e" by (simp add: powr_realpow)
  have Pe1: "(2::real) powr of_int (int e + 1) = 2 ^ (e + 1)"
    using powr_realpow[of "2::real" "e + 1"] by (simp add: add.commute)
  have "real_of_int (int e - 52) = - real (52 - e)" using e52 by simp
  then have "(2::real) powr of_int (int e - 52) = 2 powr (- real (52 - e))" by (simp only:)
  also have "\<dots> = inverse (2 powr real (52 - e))" by (rule powr_minus)
  also have "\<dots> = inverse (2 ^ (52 - e))" by (subst powr_realpow) simp_all
  finally have uP: "(2::real) powr of_int (int e - 52) = 1 / real N"
    by (simp add: N_def divide_inverse)
  let ?y = "1 / s"
  have ypos: "0 < ?y" using s by simp
  have ge: "real i + 1 / (2 * real N) \<le> ?y"
  proof (rule ccontr)
    assume "\<not> real i + 1 / (2 * real N) \<le> ?y"
    then have yl: "?y < real i + 1 / (2 * real N)" by simp
    have "fl ?y \<le> real i"
    proof (cases "?y \<le> 2 powr of_int (int e)")
      case True
      with ypos have "fl ?y \<le> 2 powr of_int (int e)" by (rule fl_le_pow2)
      moreover have "(2::real) ^ e \<le> real i"
        using e(1) by (metis of_nat_le_iff of_nat_numeral of_nat_power)
      ultimately show ?thesis unfolding Pe by linarith
    next
      case False
      then have a: "2 powr of_int (int e) \<le> \<bar>?y\<bar>" using ypos by simp
      have "(real i + 1 / (2 * real N)) * real N = real i * real N + 1 / 2"
        using nr by (simp add: field_simps)
      also have "\<dots> \<le> 2 ^ 53" using iNr by linarith
      also have "\<dots> = 2 ^ (e + 1) * real N" by (simp only: topr)
      finally have "(real i + 1 / (2 * real N)) * real N \<le> 2 ^ (e + 1) * real N" .
      then have "real i + 1 / (2 * real N) \<le> 2 ^ (e + 1)"
        using nr by (simp only: mult_le_cancel_right_pos)
      then have "?y < 2 ^ (e + 1)" using yl by linarith
      then have b: "\<bar>?y\<bar> < 2 powr of_int (int e + 1)" using ypos Pe1 by simp
      have "?y * real N < (real i + 1 / (2 * real N)) * real N"
        using yl nr by (simp only: mult_less_cancel_right_pos)
      also have "\<dots> = real_of_int (int (i * N)) + 1 / 2" using nr by (simp add: field_simps)
      finally have "round_half_even (?y * real N) \<le> int (i * N)"
        by (rule round_half_even_le_half)
      then have r: "real_of_int (round_half_even (?y * real N)) \<le> real i * real N"
        by (metis of_int_le_iff of_int_of_nat_eq of_nat_mult)
      have "fl ?y = of_int (round_half_even (?y / 2 powr of_int (int e - 52))) *
                      2 powr of_int (int e - 52)"
        by (rule fl_eval[OF a b refl])
      then have "fl ?y = of_int (round_half_even (?y * real N)) / real N"
        by (simp only: uP) simp
      moreover have "of_int (round_half_even (?y * real N)) / real N \<le> real i"
        using r nr by (simp add: pos_divide_le_eq)
      ultimately show ?thesis by simp
    qed
    with lt show False by simp
  qed
  let ?h = "1 / (2 * real N)"
  have hpos: "0 < ?h" using nr by simp
  have ipos: "0 < real i" using i0 by simp
  have den: "0 < real i + ?h" using hpos ipos by linarith
  have "s \<le> 1 / (real i + ?h)"
    using ge s den by (simp add: field_simps)
  then have "real i * s \<le> real i * (1 / (real i + ?h))"
    using ipos by (simp only: mult_le_cancel_left_pos)
  moreover have "real i * (1 / (real i + ?h)) < 1 - 1 / 2 ^ 54"
  proof -
    have h1: "2 * (real i * real N) < 2 ^ 54 - 1" using iNr by simp
    have "real i * 2 ^ 54 * (2 * real N) < (2 ^ 54 - 1) * (real i * (2 * real N) + 1)"
      using h1 by (simp add: algebra_simps)
    then have "real i * 2 ^ 54 < (2 ^ 54 - 1) * (real i + ?h)"
      using nr by (simp add: field_simps)
    then have "real i < (1 - 1 / 2 ^ 54) * (real i + ?h)" by (simp add: field_simps)
    then show ?thesis using den by (simp add: pos_divide_less_eq)
  qed
  ultimately show ?thesis by linarith
qed

subsection \<open>add\_line\<close>

lemma fl_quot: "fl (1 / (3202559735019019 / 2 ^ 57)) = 6333186975989761 / 2 ^ 47"
  using fl_eval_pos[of 5 "1 / (3202559735019019 / 2 ^ 57)" 6333186975989761]
  by (simp add: round_half_even_def)

lemma fl_step_id: "fl (3202559735019019 / 2 ^ 57) = 3202559735019019 / 2 ^ 57"
  using fl_eval_neg[of 6 "3202559735019019 / 2 ^ 57" 6405119470038038]
  by (simp add: round_half_even_def)

lemma fl_last: "fl (45 * (3202559735019019 / 2 ^ 57)) = 9007199254740991 / 2 ^ 53"
  using fl_eval_neg[of 1 "45 * (3202559735019019 / 2 ^ 57)" 9007199254740991]
  by (simp add: round_half_even_def)

lemma fl_last_id: "fl (9007199254740991 / 2 ^ 53) = 9007199254740991 / 2 ^ 53"
  using fl_eval_neg[of 1 "9007199254740991 / 2 ^ 53" 9007199254740991]
  by (simp add: round_half_even_def)

lemma fl_compl: "fl (1 - 9007199254740991 / 2 ^ 53) = 1 / 2 ^ 53"
  using fl_eval_neg[of 53 "1 - 9007199254740991 / 2 ^ 53" "2 ^ 52"]
  by (simp add: round_half_even_def)

lemma fl_compl_16: "fl (1 / 2 ^ 53 * 16) = 1 / 2 ^ 49"
  using fl_eval_neg[of 49 "1 / 2 ^ 53 * 16" "2 ^ 52"]
  by (simp add: round_half_even_def)

lemma fl_last_31: "fl (9007199254740991 / 2 ^ 53 * 31) = 8725724278030335 / 2 ^ 48"
  using fl_eval_pos[of 4 "9007199254740991 / 2 ^ 53 * 31" 8725724278030335]
  by (simp add: round_half_even_def)

lemma fl_tie: "fl (1 / 2 ^ 49 + 8725724278030335 / 2 ^ 48) = 31"
  using fl_eval_pos[of 4 "1 / 2 ^ 49 + 8725724278030335 / 2 ^ 48" 8725724278030336]
  by (simp add: round_half_even_def)

lemma fl_interpolate_last: "fl_interpolate 16 31 (9007199254740991 / 2 ^ 53) = 31"
  unfolding fl_interpolate_def
  by (simp only: fl_compl fl_compl_16 fl_last_31 fl_tie)

lemma fl_interpolate_zero_zero: "fl_interpolate 0 0 t = 0"
  by (simp add: fl_interpolate_def fl_zero)

lemma last_map_upt: "0 < n \<Longrightarrow> last (map f [0 ..< n]) = f (n - 1)"
  by (cases n) (simp_all add: last_map)

lemma np_arange_rounded_unit:
  assumes "0 < step"
  shows "np_arange_rounded 0 1 step =
           Inr (map (\<lambda>i. if i = 0 then 0 else if i = 1 then fl step
                          else fl (fl (real i * fl (fl step))))
                  [0 ..< nat \<lceil>fl (1 / step)\<rceil>])"
    and "0 < nat \<lceil>fl (1 / step)\<rceil>"
proof -
  show "np_arange_rounded 0 1 step =
           Inr (map (\<lambda>i. if i = 0 then 0 else if i = 1 then fl step
                          else fl (fl (real i * fl (fl step))))
                  [0 ..< nat \<lceil>fl (1 / step)\<rceil>])"
    using assms by (simp add: np_arange_rounded_def Let_def fl_one)
  have "0 < 1 / step" using assms by simp
  then have "0 < fl (1 / step)" by (rule fl_pos)
  then show "0 < nat \<lceil>fl (1 / step)\<rceil>" by simp
qed

lemma arange_example:
  "np_arange_rounded 0 1 (3202559735019019 / 2 ^ 57) = Inr ts \<Longrightarrow>
   length ts = 46 \<and> last ts = 9007199254740991 / 2 ^ 53"
proof -
  assume a: "np_arange_rounded 0 1 (3202559735019019 / 2 ^ 57) = Inr ts"
  have n: "nat \<lceil>fl (1 / (3202559735019019 / 2 ^ 57))\<rceil> = 46"
    by (simp only: fl_quot) simp
  have ts: "ts = map (\<lambda>i. if i = 0 then 0 else if i = 1 then fl (3202559735019019 / 2 ^ 57)
                          else fl (fl (real i * fl (fl (3202559735019019 / 2 ^ 57)))))
                  [0 ..< 46]"
    using a np_arange_rounded_unit(1)[of "3202559735019019 / 2 ^ 57"] by (simp only: n) simp
  have "last ts = (\<lambda>i. if i = 0 then 0 else if i = 1 then fl (3202559735019019 / 2 ^ 57)
                          else fl (fl (real i * fl (fl (3202559735019019 / 2 ^ 57))))) (46 - 1)"
    unfolding ts by (rule last_map_upt) simp
  then have "last ts = fl (fl (45 * fl (fl (3202559735019019 / 2 ^ 57))))" by simp
  then have "last ts = 9007199254740991 / 2 ^ 53"
    by (simp only: fl_step_id fl_last fl_last_id)
  moreover have "length ts = 46" using ts by simp
  ultimately show ?thesis by simp
qed


lemma np_arange_rounded_unit_bounds:
  assumes q: "0 < q"
    and ar: "np_arange_rounded 0 1 (fl q) = Inr ts"
    and len: "length ts \<le> 2 ^ 53"
  shows "\<forall>t \<in> set ts. 0 \<le> t \<and> t < 1"
proof
  fix t assume t: "t \<in> set ts"
  let ?step = "fl q"
  let ?n = "nat \<lceil>fl (1 / ?step)\<rceil>"
  let ?g = "\<lambda>i. if i = 0 then 0 else if i = 1 then fl ?step
                 else fl (fl (real i * fl (fl ?step)))"
  have step: "0 < ?step" using q by (rule fl_pos)
  have idem: "fl ?step = ?step" using q by (rule fl_idem_pos)
  have ts: "ts = map ?g [0 ..< ?n]" using ar np_arange_rounded_unit(1)[OF step] by simp
  then have n: "length ts = ?n" by simp
  have "t \<in> set (map ?g [0 ..< ?n])" using t by (simp only: ts[symmetric])
  then have "t \<in> ?g ` set [0 ..< ?n]" by (simp only: set_map)
  then obtain i where mem: "i \<in> set [0 ..< ?n]" and ti: "t = ?g i"
    by (auto simp only: image_iff)
  have i: "i < ?n" using mem by simp
  show "0 \<le> t \<and> t < 1"
  proof (cases "i = 0")
    case True
    then show ?thesis using ti by simp
  next
    case False
    then have i0: "0 < i" by simp
    have "i < 2 ^ 53" using i n len by linarith
    moreover have "real i < fl (1 / ?step)" using i by (rule less_nat_ceiling)
    ultimately have below: "real i * ?step < 1 - 1 / 2 ^ 54"
      using sample_below_one[OF step i0] by blast
    have nonneg: "0 \<le> real i * ?step" using step by simp
    have one: "fl (real i * ?step) \<le> 1 - 1 / 2 ^ 53" using nonneg below by (rule fl_below_one)
    have one0: "0 \<le> fl (real i * ?step)" using nonneg by (rule fl_nonneg)
    have "fl (real i * ?step) < 1 - 1 / 2 ^ 54" using one by simp
    with one0 have two: "fl (fl (real i * ?step)) \<le> 1 - 1 / 2 ^ 53" by (rule fl_below_one)
    have two0: "0 \<le> fl (fl (real i * ?step))" using one0 by (rule fl_nonneg)
    show ?thesis
    proof (cases "i = 1")
      case True
      then have "t = ?step" using ti idem by simp
      moreover have "?step < 1" using below True by simp
      ultimately show ?thesis using step by simp
    next
      case False
      then have "t = fl (fl (real i * ?step))" using ti i0 idem by simp
      then show ?thesis using two two0 by simp
    qed
  qed
qed

lemma fl_neg: "x < 0 \<Longrightarrow> fl x < 0"
proof -
  assume x: "x < 0"
  define k where "k = \<lfloor>log 2 \<bar>x\<bar>\<rfloor>"
  have "2 powr of_int k \<le> \<bar>x\<bar>"
    using x floor_log_eq_powr_iff[of "\<bar>x\<bar>" 2 k] by (simp add: k_def)
  then have "2 powr of_int k \<le> - x" using x by simp
  have u: "0 < (2::real) powr of_int (k - 52)" by simp
  have "2 powr of_int (k - 52) \<le> (2::real) powr of_int k" by simp
  then have "2 powr of_int (k - 52) \<le> - x" using \<open>2 powr of_int k \<le> - x\<close> by linarith
  then have "x / 2 powr of_int (k - 52) \<le> of_int (- 1)"
    using u by (simp add: pos_divide_le_eq)
  then have "round_half_even (x / 2 powr of_int (k - 52)) \<le> - 1" by (rule round_half_even_le)
  then have "real_of_int (round_half_even (x / 2 powr of_int (k - 52))) < 0" by simp
  then have "real_of_int (round_half_even (x / 2 powr of_int (k - 52))) * 2 powr of_int (k - 52) < 0"
    using u by (simp add: mult_less_0_iff)
  then show ?thesis using x by (simp add: fl_def Let_def k_def)
qed

lemma fl_eq_0_iff: "fl x = 0 \<longleftrightarrow> x = 0"
  using fl_pos[of x] fl_neg[of x] fl_zero by (cases "x = 0"; cases "0 < x") auto

lemma fl_sub_point_eq_0: "fl_sub_point p q = (0, 0, 0) \<Longrightarrow> p = q"
  by (cases p; cases q) (simp add: fl_eq_0_iff)

lemma get_norm_pos: "v \<noteq> (0, 0, 0) \<Longrightarrow> 0 < get_norm v"
proof -
  assume neq: "v \<noteq> (0, 0, 0)"
  obtain x y z where v: "v = (x, y, z)" by (cases v)
  from neq v have "x \<noteq> 0 \<or> y \<noteq> 0 \<or> z \<noteq> 0" by auto
  then have "0 < x\<^sup>2 \<or> 0 < y\<^sup>2 \<or> 0 < z\<^sup>2" by simp
  moreover have "0 \<le> x\<^sup>2" "0 \<le> y\<^sup>2" "0 \<le> z\<^sup>2" by simp_all
  ultimately have "0 < x\<^sup>2 + y\<^sup>2 + z\<^sup>2" by linarith
  then show ?thesis using v by (simp add: power2_eq_square)
qed

lemma segment_length_pos:
  "start \<noteq> end \<Longrightarrow> 0 < fl (get_norm (fl_sub_point end start))"
  using fl_sub_point_eq_0[of "end" start] get_norm_pos[of "fl_sub_point end start"]
  by (auto intro: fl_pos)

lemma fl_interpolate_point_0:
  "representable_point p \<Longrightarrow> fl_interpolate_point p q 0 = p"
  by (cases p; cases q) (simp add: fl_interpolate_def fl_one fl_zero)

lemma add_line_returns:
  assumes len: "fl (get_norm (fl_sub_point end start)) \<noteq> 0"
    and ar: "np_arange_rounded 0 1 (fl (epsilon self / fl (get_norm (fl_sub_point end start)))) =
               Inr ts"
    and ne: "ts \<noteq> []"
  shows "\<exists>m. add_line color_to_rgba Color start end color_arg self = Inr (self\<lparr>cloud := m\<rparr>) \<and>
             points m = points (cloud self) @ map (\<lambda>t. fl_interpolate_point start end t) ts"
proof -
  let ?pts = "map (\<lambda>t. fl_interpolate_point start end t) ts"
  have pts_nonempty: "?pts \<noteq> []" using ne by simp
  obtain ps rs w c subs where cl: "cloud self = PMobject ps rs w c subs" by (cases "cloud self")
  have add: "add_points color_to_rgba Color (PyList ?pts) None color_arg 1 (cloud self) =
      Inr (PMobject (ps @ ?pts)
             (rs @ replicate (length ?pts)
                (color_to_rgba (case color_arg of Some k \<Rightarrow> Color k | None \<Rightarrow> c) 1)) w c subs)"
    using pts_nonempty unfolding cl by (simp add: np_append_def split: option.splits)
  let ?m = "PMobject (ps @ ?pts)
             (rs @ replicate (length ?pts)
                (color_to_rgba (case color_arg of Some k \<Rightarrow> Color k | None \<Rightarrow> c) 1)) w c subs"
  have "add_line color_to_rgba Color start end color_arg self = Inr (self\<lparr>cloud := ?m\<rparr>)"
    using len ar add by (simp add: add_line_def Let_def)
  moreover have "points ?m = points (cloud self) @ ?pts" using cl by simp
  ultimately show ?thesis by blast
qed

lemma fl_half: "fl (1 / 2) = 1 / 2"
  using fl_eval_neg[of 1 "1 / 2" "2 ^ 52"] by (simp add: round_half_even_def)

lemma fl_two: "fl 2 = 2"
  using fl_eval_pos[of 1 2 "2 ^ 52"] by (simp add: round_half_even_def)

text \<open>
  C10. The exact end point can be appended. For the sampler of density 3, whose
  \<open>epsilon\<close> is the double \<open>1.0 / 3\<close>, and the segment from \<open>(16, 0, 0)\<close> to
  \<open>(31, 0, 0)\<close>, the step is the double nearest to \<open>epsilon / 15\<close>; the rounded
  quotient \<open>1 / step\<close> is \<open>45 + 2 ^ -47\<close>, so the range has 46 parameters, the last
  \<open>1 - 2 ^ -53\<close>, and the point interpolated there rounds to \<open>(31, 0, 0)\<close>:
  \<open>add_line\<close> returns with 46 points, the first \<open>start\<close> and the last \<open>end\<close>.
\<close>

theorem add_line_half_open_counterexample:
  "fl (1 / 3) = 6004799503160661 / 2 ^ 54 \<and>
   np_arange_rounded 0 1 (fl (fl (1 / 3) / fl (get_norm (fl_sub_point (31, 0, 0) (16, 0, 0))))) \<noteq>
     Inr [] \<and>
   (case np_arange_rounded 0 1
           (fl (fl (1 / 3) / fl (get_norm (fl_sub_point (31, 0, 0) (16, 0, 0))))) of
      Inl e \<Rightarrow> False
    | Inr ts \<Rightarrow> length ts = 46 \<and> last ts = 1 - 1 / 2 ^ 53) \<and>
   (case add_line (\<lambda>k a. (1, 1, 1, a)) id (16, 0, 0) (31, 0, 0) None
           \<lparr>cloud = PMobject [] [] 4 ''WHITE'' [], density = 3, epsilon = fl (1 / 3)\<rparr> of
      Inl e \<Rightarrow> False
    | Inr s \<Rightarrow> length (points (cloud s)) = 46 \<and> hd (points (cloud s)) = (16, 0, 0) \<and>
               last (points (cloud s)) = (31, 0, 0))"
proof -
  let ?self = "\<lparr>cloud = PMobject [] [] 4 ''WHITE'' [], density = 3, epsilon = fl (1 / 3)\<rparr>
                 :: string mobject1d"
  let ?S = "3202559735019019 / 2 ^ 57 :: real"
  have len: "fl (get_norm (fl_sub_point (31, 0, 0) (16, 0, 0))) = 15"
  proof -
    have "fl_sub_point (31, 0, 0) (16, 0, 0) = (15, 0, 0)" by (simp add: fl_15 fl_zero)
    moreover have "get_norm (15, 0, 0) = 15" by simp
    ultimately show ?thesis by (simp only: fl_15)
  qed
  have step: "fl (fl (1 / 3) / fl (get_norm (fl_sub_point (31, 0, 0) (16, 0, 0)))) = ?S"
    by (simp only: len fl_third fl_step)
  have S: "0 < ?S" by simp
  obtain ts where ts: "np_arange_rounded 0 1 ?S = Inr ts"
    using np_arange_rounded_unit(1)[OF S] by blast
  note ex = arange_example[OF ts]
  have ne: "ts \<noteq> []" using ex by auto
  have last_t: "last ts = 1 - 1 / 2 ^ 53" using ex by simp
  have rep: "representable_point (16, 0, 0)"
    using fl_eval_pos[of 4 16 "2 ^ 52"] by (simp add: round_half_even_def fl_zero)
  have hd_t: "hd ts = 0"
    using ts ex np_arange_rounded_unit(1)[OF S] by (auto simp: hd_map upt_conv_Cons)
  have "epsilon ?self = fl (1 / 3)" by simp
  then have ar: "np_arange_rounded 0 1
      (fl (epsilon ?self / fl (get_norm (fl_sub_point (31, 0, 0) (16, 0, 0))))) = Inr ts"
    using ts step by (simp only:)
  have len0: "fl (get_norm (fl_sub_point (31, 0, 0) (16, 0, 0))) \<noteq> 0" using len by simp
  obtain m where m: "add_line (\<lambda>k a. (1, 1, 1, a)) id (16, 0, 0) (31, 0, 0) None ?self =
        Inr (?self\<lparr>cloud := m\<rparr>)"
      and pm: "points m = points (cloud ?self) @
                 map (\<lambda>t. fl_interpolate_point (16, 0, 0) (31, 0, 0) t) ts"
    using add_line_returns[OF len0 ar ne] by blast
  have pm': "points m = map (\<lambda>t. fl_interpolate_point (16, 0, 0) (31, 0, 0) t) ts"
    using pm by simp
  have l: "length (points m) = 46" using pm' ex by simp
  have "last (points m) = fl_interpolate_point (16, 0, 0) (31, 0, 0) (last ts)"
    using pm' ne by (simp add: last_map)
  also have "\<dots> = fl_interpolate_point (16, 0, 0) (31, 0, 0) (9007199254740991 / 2 ^ 53)"
    by (simp only: ex[THEN conjunct2])
  also have "\<dots> = (31, 0, 0)"
    by (simp only: fl_interpolate_point.simps fl_interpolate_last fl_interpolate_zero_zero)
  finally have la: "last (points m) = (31, 0, 0)" .
  have "hd (points m) = fl_interpolate_point (16, 0, 0) (31, 0, 0) 0"
    using pm' ne hd_t by (simp add: hd_map)
  then have h: "hd (points m) = (16, 0, 0)"
    by (simp only: fl_interpolate_point_0[OF rep])
  have c1: "fl (1 / 3) = 6004799503160661 / 2 ^ 54" by (rule fl_third)
  have c2: "np_arange_rounded 0 1
      (fl (fl (1 / 3) / fl (get_norm (fl_sub_point (31, 0, 0) (16, 0, 0))))) \<noteq> Inr []"
    using ts ne by (simp only: step) simp
  have c3: "(case np_arange_rounded 0 1
           (fl (fl (1 / 3) / fl (get_norm (fl_sub_point (31, 0, 0) (16, 0, 0))))) of
      Inl e \<Rightarrow> False
    | Inr ts \<Rightarrow> length ts = 46 \<and> last ts = 1 - 1 / 2 ^ 53)"
    using ts ex last_t by (simp only: step) simp
  have c4: "(case add_line (\<lambda>k a. (1, 1, 1, a)) id (16, 0, 0) (31, 0, 0) None ?self of
      Inl e \<Rightarrow> False
    | Inr s \<Rightarrow> length (points (cloud s)) = 46 \<and> hd (points (cloud s)) = (16, 0, 0) \<and>
               last (points (cloud s)) = (31, 0, 0))"
    using l h la by (simp only: m) simp
  from c1 c2 c3 c4 show ?thesis by (intro conjI)
qed

text \<open>
  C10, amended. For a sampler with a positive \<open>epsilon\<close> and a segment with
  \<open>start \<noteq> end\<close> whose start point has double coordinates, the parameters sampled
  by \<open>add_line\<close> are those of \<open>np.arange(0, 1, step)\<close> on doubles, \<open>step\<close> the
  rounded quotient \<open>epsilon / L\<close>: their number is the ceiling of the rounded
  quotient \<open>1 / step\<close>, there is at least one and the first is 0; when there are
  at most \<open>2 ^ 53\<close> of them, every parameter is at least 0 and below 1.
  \<open>add_line\<close> returns and appends the interpolated points in order; the first
  appended point is \<open>start\<close>.
\<close>

theorem add_line_rounded_range:
  assumes eps: "0 < epsilon self"
    and neq: "start \<noteq> end"
    and rep: "representable_point start"
  shows "\<exists>ts self'.
           np_arange_rounded 0 1 (fl (epsilon self / fl (get_norm (fl_sub_point end start)))) =
             Inr ts \<and>
           length ts =
             nat \<lceil>fl (1 / fl (epsilon self / fl (get_norm (fl_sub_point end start))))\<rceil> \<and>
           ts \<noteq> [] \<and> hd ts = 0 \<and>
           (length ts \<le> 2 ^ 53 \<longrightarrow> (\<forall>t \<in> set ts. 0 \<le> t \<and> t < 1)) \<and>
           add_line color_to_rgba Color start end color_arg self = Inr self' \<and>
           points (cloud self') =
             points (cloud self) @ map (\<lambda>t. fl_interpolate_point start end t) ts \<and>
           hd (map (\<lambda>t. fl_interpolate_point start end t) ts) = start"
proof -
  let ?len = "fl (get_norm (fl_sub_point end start))"
  let ?step = "fl (epsilon self / ?len)"
  let ?n = "nat \<lceil>fl (1 / ?step)\<rceil>"
  let ?ts = "map (\<lambda>i. if i = 0 then 0 else if i = 1 then fl ?step
                        else fl (fl (real i * fl (fl ?step)))) [0 ..< ?n]"
  have len: "0 < ?len" using neq by (rule segment_length_pos)
  have quot: "0 < epsilon self / ?len" using eps len by simp
  then have step: "0 < ?step" by (rule fl_pos)
  note ar = np_arange_rounded_unit[OF step]
  have ts_nonempty: "?ts \<noteq> []" using ar(2) by simp
  have hd_ts: "hd ?ts = 0" using ar(2) by (simp add: hd_map upt_conv_Cons)
  have len_ts: "length ?ts = ?n" by simp
  have bounds: "length ?ts \<le> 2 ^ 53 \<longrightarrow> (\<forall>t \<in> set ?ts. 0 \<le> t \<and> t < 1)"
    using np_arange_rounded_unit_bounds[OF quot ar(1)] by blast
  have len0: "?len \<noteq> 0" using len by simp
  obtain m where m: "add_line color_to_rgba Color start end color_arg self =
        Inr (self\<lparr>cloud := m\<rparr>)"
      and pm: "points m = points (cloud self) @ map (\<lambda>t. fl_interpolate_point start end t) ?ts"
    using add_line_returns[OF len0 ar(1) ts_nonempty] by blast
  have pts': "points (cloud (self\<lparr>cloud := m\<rparr>)) =
      points (cloud self) @ map (\<lambda>t. fl_interpolate_point start end t) ?ts" using pm by simp
  have hd_pts: "hd (map (\<lambda>t. fl_interpolate_point start end t) ?ts) = start"
    using ts_nonempty hd_ts fl_interpolate_point_0[OF rep] by (simp add: hd_map)
  from ar(1) len_ts ts_nonempty hd_ts bounds m pts' hd_pts show ?thesis by blast
qed

theorem add_line_rounded_range_witness:
  "0 < epsilon \<lparr>cloud = PMobject [] [] 4 ''WHITE'' [], density = 2, epsilon = 1/2\<rparr>
   \<and> (0, 0, 0) \<noteq> ((1, 0, 0) :: point)
   \<and> representable_point (0, 0, 0)
   \<and> np_arange_rounded 0 1
        (fl (epsilon \<lparr>cloud = PMobject [] [] 4 ''WHITE'' [], density = 2, epsilon = 1/2\<rparr>
             / fl (get_norm (fl_sub_point (1, 0, 0) (0, 0, 0))))) = Inr [0, 1/2]
   \<and> add_line (\<lambda>k a. (1, 1, 1, a)) id (0, 0, 0) (1, 0, 0) None
        \<lparr>cloud = PMobject [] [] 4 ''WHITE'' [], density = 2, epsilon = 1/2\<rparr> =
       Inr \<lparr>cloud = PMobject [(0, 0, 0), (1/2, 0, 0)] [(1, 1, 1, 1), (1, 1, 1, 1)] 4 ''WHITE'' [],
            density = 2, epsilon = 1/2\<rparr>"
  using add_line_rounded_range
          [of "\<lparr>cloud = PMobject [] [] 4 ''WHITE'' [], density = 2, epsilon = 1/2\<rparr>"
              "(0, 0, 0)" "(1, 0, 0)" "\<lambda>k a. (1, 1, 1, a)" id None]
  by (simp add: add_line_def np_arange_rounded_def np_append_def fl_interpolate_def
        fl_zero fl_one fl_half fl_two upt_conv_Cons numeral_2_eq_2)

subsection \<open>PointCloudDot.generate\_points\<close>

lemma np_divide_by_zero: "0 < eps \<Longrightarrow> np_divide eps 0 = PosInf"
  by (simp add: np_divide_def)

lemma dot_ring_centre:
  "0 < eps \<Longrightarrow> dot_ring inf_check eps 0 = Inr (if inf_check then [(0, 0, 0)] else [])"
  by (simp add: dot_ring_def np_divide_def RIGHT_def UP_def)

lemma dot_ring_returns:
  assumes "eps \<noteq> 0"
  shows "\<exists>ring. dot_ring inf_check eps r = Inr ring"
proof (cases "r = 0")
  case True
  with assms show ?thesis by (simp add: dot_ring_def np_divide_def)
next
  case False
  with assms show ?thesis by (simp add: dot_ring_def np_divide_def np_arange_def)
qed

lemma dot_rings_returns:
  assumes "eps \<noteq> 0"
  shows "\<exists>pts. dot_rings inf_check eps rs = Inr pts"
proof (induction rs)
  case Nil
  show ?case by simp
next
  case (Cons r rs)
  from dot_ring_returns[OF assms] obtain ring where "dot_ring inf_check eps r = Inr ring" by blast
  with Cons show ?case by auto
qed

lemma dot_rings_nonempty:
  "dot_rings inf_check eps rs = Inr pts \<Longrightarrow> r \<in> set rs \<Longrightarrow>
   dot_ring inf_check eps r = Inr ring \<Longrightarrow> ring \<noteq> [] \<Longrightarrow> pts \<noteq> []"
  by (induction rs arbitrary: pts) (auto split: sum.splits)

lemma dot_ring_unit_nonempty:
  assumes "0 < eps"
  shows "\<exists>ring. dot_ring inf_check eps eps = Inr ring \<and> ring \<noteq> []"
proof -
  have "np_divide eps eps = Finite 1" using assms by (simp add: np_divide_def)
  moreover have "0 < nat \<lceil>2 * pi\<rceil>" using pi_gt_zero by simp
  ultimately show ?thesis using pi_gt_zero by (simp add: dot_ring_def np_arange_def not_le)
qed

lemma radial_range:
  assumes "0 < eps" and "0 < r"
  shows "np_arange 0 r eps = Inr (0 # map (\<lambda>i. 0 + real i * eps) [1 ..< nat \<lceil>r / eps\<rceil>])"
    and "eps < r \<Longrightarrow> eps \<in> set (map (\<lambda>i. 0 + real i * eps) [1 ..< nat \<lceil>r / eps\<rceil>])"
proof -
  have "0 < r / eps" using assms by simp
  then have n: "0 < nat \<lceil>r / eps\<rceil>" by simp
  then have "[0 ..< nat \<lceil>r / eps\<rceil>] = 0 # [1 ..< nat \<lceil>r / eps\<rceil>]"
    by (simp add: upt_conv_Cons)
  then show "np_arange 0 r eps = Inr (0 # map (\<lambda>i. 0 + real i * eps) [1 ..< nat \<lceil>r / eps\<rceil>])"
    using assms by (simp add: np_arange_def)
  assume "eps < r"
  then have "1 < r / eps" using assms by simp
  then have "1 < \<lceil>r / eps\<rceil>" by (simp add: less_ceiling_iff)
  then have "1 < nat \<lceil>r / eps\<rceil>" by simp
  then have "1 \<in> set [1 ..< nat \<lceil>r / eps\<rceil>]" by simp
  then have "0 + real 1 * eps \<in> (\<lambda>i. 0 + real i * eps) ` set [1 ..< nat \<lceil>r / eps\<rceil>]"
    by (rule imageI)
  then show "eps \<in> set (map (\<lambda>i. 0 + real i * eps) [1 ..< nat \<lceil>r / eps\<rceil>])"
    by (simp only: set_map) simp
qed

text \<open>
  C8, as the claim states it, fails: the comprehension neither skips nor
  special-cases \<open>r == 0\<close>. For radius 0.075 and density 25 the radial steps are 0
  and 0.04, and at the first of them the increment \<open>epsilon / r\<close> is computed with
  the divisor 0: it is the float \<open>+inf\<close>.
\<close>

theorem generate_points_divides_by_zero_counterexample:
  "np_arange 0 (3/40) (1/25) = Inr [0, 1/25]
   \<and> np_divide (1/25) 0 = PosInf
   \<and> dot_ring True (1/25) 0 = Inr [(0, 0, 0)]
   \<and> dot_ring False (1/25) 0 = Inr []"
  by (simp add: np_arange_def np_divide_def dot_ring_def RIGHT_def UP_def upt_conv_Cons
        numeral_2_eq_2)

text \<open>
  C8, amended. For every positive radius and density the radial range starts at
  \<open>r = 0\<close>, where \<open>epsilon / r\<close> divides by zero and gives \<open>+inf\<close> without raising;
  the angular range for that step holds at most the angle 0 (the centre point, or
  nothing, by numpy version), and the nested loop returns a list of points. When
  the radius exceeds \<open>epsilon\<close>, \<open>generate_points\<close> returns with these points
  appended.
\<close>

theorem generate_points_divides_by_zero:
  assumes rad: "0 < radius self"
    and dens: "0 < density self0"
    and init: "Mobject1D_post_init self0 = Inr self"
  shows "\<exists>radii pts.
           np_arange 0 (radius self) (epsilon self) = Inr (0 # radii) \<and>
           np_divide (epsilon self) 0 = PosInf \<and>
           dot_ring inf_check (epsilon self) 0 = Inr (if inf_check then [(0, 0, 0)] else []) \<and>
           dot_rings inf_check (epsilon self) (0 # radii) = Inr pts \<and>
           (epsilon self < radius self \<longrightarrow>
              (\<exists>self'. generate_points inf_check color_to_rgba Color self = Inr self' \<and>
                      points (cloud self') = points (cloud self) @ pts))"
proof -
  let ?eps = "epsilon self"
  let ?radii = "map (\<lambda>i. 0 + real i * ?eps) [1 ..< nat \<lceil>radius self / ?eps\<rceil>]"
  have eps: "0 < ?eps"
    using init dens by (auto simp: Mobject1D_post_init_def split: if_splits)
  note rr = radial_range[OF eps rad]
  from dot_rings_returns[of ?eps inf_check "0 # ?radii"] eps
  obtain pts where pts: "dot_rings inf_check ?eps (0 # ?radii) = Inr pts" by auto
  have gen: "\<exists>self'. generate_points inf_check color_to_rgba Color self = Inr self' \<and>
                points (cloud self') = points (cloud self) @ pts" if big: "?eps < radius self"
  proof -
    from dot_ring_unit_nonempty[OF eps, of inf_check]
    obtain ring where ring: "dot_ring inf_check ?eps ?eps = Inr ring" "ring \<noteq> []" by blast
    have "?eps \<in> set (0 # ?radii)" using rr(2)[OF big] by simp
    from dot_rings_nonempty[OF pts this ring] have ne: "pts \<noteq> []" .
    obtain ps rs w c subs where cl: "cloud self = PMobject ps rs w c subs"
      by (cases "cloud self")
    have "add_points color_to_rgba Color (PyList pts) None None 1 (cloud self) =
            Inr (PMobject (ps @ pts) (rs @ replicate (length pts) (color_to_rgba c 1)) w c subs)"
      using ne unfolding cl by (simp add: np_append_def)
    then have "generate_points inf_check color_to_rgba Color self =
            Inr (self\<lparr>cloud := PMobject (ps @ pts)
                   (rs @ replicate (length pts) (color_to_rgba c 1)) w c subs\<rparr>)"
      using rr(1) pts by (simp add: generate_points_def)
    then show ?thesis using cl by simp
  qed
  from rr(1) np_divide_by_zero[OF eps] dot_ring_centre[OF eps] pts gen
  show ?thesis by blast
qed

theorem generate_points_divides_by_zero_witness:
  "0 < radius \<lparr>cloud = PMobject [] [] 2 ''YELLOW'' [], density = 25, epsilon = 1/25,
                radius = 3/40, center = (0, 0, 0)\<rparr>
   \<and> 0 < density \<lparr>cloud = PMobject [] [] 2 ''YELLOW'' [], density = 25, epsilon = 0,
                   radius = 3/40, center = (0, 0, 0)\<rparr>
   \<and> Mobject1D_post_init \<lparr>cloud = PMobject [] [] 2 ''YELLOW'' [], density = 25, epsilon = 0,
                            radius = 3/40, center = (0, 0, 0)\<rparr> =
       Inr \<lparr>cloud = PMobject [] [] 2 ''YELLOW'' [], density = 25, epsilon = 1/25,
            radius = 3/40, center = (0, 0, 0)\<rparr>
   \<and> np_arange 0 (3/40) (1/25) = Inr [0, 1/25]
   \<and> np_divide (1/25) 0 = PosInf
   \<and> (\<exists>self'. generate_points True (\<lambda>k a. (1, 1, 0, a)) id
                 \<lparr>cloud = PMobject [] [] 2 ''YELLOW'' [], density = 25, epsilon = 1/25,
                  radius = 3/40, center = (0, 0, 0)\<rparr> = Inr self')"
  using generate_points_divides_by_zero
          [of "\<lparr>cloud = PMobject [] [] 2 ''YELLOW'' [], density = 25, epsilon = 1/25,
                radius = 3/40, center = (0, 0, 0)\<rparr>"
              "\<lparr>cloud = PMobject [] [] 2 ''YELLOW'' [], density = 25, epsilon = 0,
                radius = 3/40, center = (0, 0, 0)\<rparr>"
              True "\<lambda>k a. (1, 1, 0, a)" id]
  by (auto simp: Mobject1D_post_init_def np_arange_def np_divide_def upt_conv_Cons numeral_2_eq_2)

subsection \<open>The invariant under the mutating methods\<close>

lemma holds_after_family:
  "holds_after pm_inv r =
     (case r of Inl (e, m') \<Rightarrow> pm_inv m' | Inr m' \<Rightarrow> pm_inv m')"
  by (simp add: holds_after_def)

lemma reset_points_inv: "pm_inv self \<Longrightarrow> pm_inv (reset_points self)"
  by (cases self) simp

lemma add_points_inv:
  "pm_inv self \<Longrightarrow> add_points color_to_rgba Color pts rgbas_arg color_arg alpha self = Inr s \<Longrightarrow>
   pm_inv s"
  by (cases self) (auto simp: np_append_def Let_def split: sum.splits option.splits if_splits)

lemma set_rgbas_of_family_inv: "pm_inv m \<Longrightarrow> pm_inv (set_rgbas_of_family rgba m)"
  by (induction m) auto

lemma set_color_inv: "pm_inv self \<Longrightarrow> pm_inv (set_color color_to_rgba col family self)"
proof (cases self)
  case (PMobject ps rs w c subs)
  assume inv: "pm_inv self"
  have "\<forall>m \<in> set subs. pm_inv (set_rgbas_of_family (color_to_rgba col 1) m)"
    using inv PMobject by (simp add: set_rgbas_of_family_inv)
  then show ?thesis using inv PMobject by (simp add: Let_def)
qed

lemma set_color_by_gradient_inv:
  "pm_inv self \<Longrightarrow>
   length (color_gradient colors (length (points self))) = length (points self) \<Longrightarrow>
   pm_inv (set_color_by_gradient color_to_rgba color_gradient colors self)"
  by (cases self) simp

lemma match_colors_inv:
  assumes "\<forall>s m. align_data self mobject = Inr (s, m) \<longrightarrow>
             pm_inv s \<and> length (points s) = length (rgbas m)"
    and "match_colors align_data self mobject = Inr (s', m')"
  shows "pm_inv s'"
proof -
  from assms(2) obtain s where al: "align_data self mobject = Inr (s, m')"
    and s': "s' = PMobject (points s) (rgbas m') (stroke_width s) (color s) (submobjects s)"
    by (auto simp: match_colors_def split: sum.splits prod.splits)
  from assms(1) al have "pm_inv s" "length (points s) = length (rgbas m')" by auto
  then show ?thesis unfolding s' by (cases s) simp
qed

lemma filter_out_inv: "pm_inv self \<Longrightarrow> holds_after pm_inv (filter_out condition self)"
proof -
  assume inv: "pm_inv self"
  have body_inv: "\<And>ps rs. length ps = length rs \<Longrightarrow>
      (case filter_out_arrays condition (ps, rs) of
         Inl (e, (ps', rs')) \<Rightarrow> length ps' = length rs'
       | Inr (ps', rs') \<Rightarrow> length ps' = length rs')"
    using length_filter_paired[of _ _ "\<lambda>p. \<not> condition p"]
    by (simp add: filter_out_arrays_returns)
  from for_family_inv(1)[of "filter_out_arrays condition" self, OF body_inv inv]
  show ?thesis by (simp add: filter_out_def holds_after_family)
qed

lemma thin_body_inv:
  "length ps = length rs \<Longrightarrow>
   (case apply_over_attr_arrays (thin_array n factor) (thin_array n factor) (ps, rs) of
      Inl (e, (ps', rs')) \<Rightarrow> length ps' = length rs'
    | Inr (ps', rs') \<Rightarrow> length ps' = length rs')"
  by (simp add: apply_over_attr_arrays_def thin_array_def take_rows_def split: sum.splits)

lemma thin_out_inv: "pm_inv self \<Longrightarrow> holds_after pm_inv (thin_out factor self)"
proof (cases self)
  case (PMobject ps rs w c subs)
  assume inv: "pm_inv self"
  then have len: "length ps = length rs" and subs: "\<forall>m \<in> set subs. pm_inv m"
    using PMobject by simp_all
  have each: "case for_each_with_points
              (apply_over_attr_arrays (thin_array n factor) (thin_array n factor)) subs of
           Inl (e, ms') \<Rightarrow> (\<forall>m \<in> set ms'. pm_inv m)
         | Inr ms' \<Rightarrow> (\<forall>m \<in> set ms'. pm_inv m)" for n
    by (rule for_family_inv(2)
          [of "apply_over_attr_arrays (thin_array n factor) (thin_array n factor)" subs,
           OF thin_body_inv subs])
  show ?thesis
  proof (cases "ps = []")
    case True
    with each[of 0] len show ?thesis
      unfolding PMobject by (simp add: holds_after_family split: sum.splits prod.splits)
  next
    case False
    let ?r = "apply_over_attr_arrays (thin_array (length ps) factor)
                (thin_array (length ps) factor) (ps, rs)"
    show ?thesis
    proof (cases ?r)
      case (Inl failure)
      then obtain e ps' rs' where f: "?r = Inl (e, (ps', rs'))" by (cases failure) auto
      with thin_body_inv[OF len, of "length ps" factor] have "length ps' = length rs'" by simp
      with f False subs show ?thesis
        unfolding PMobject by (simp add: holds_after_family)
    next
      case (Inr arrays)
      then obtain ps' rs' where a: "?r = Inr (ps', rs')" by (cases arrays) auto
      with thin_body_inv[OF len, of "length ps" factor] have "length ps' = length rs'" by simp
      with a False each[of "length ps'"] show ?thesis
        unfolding PMobject by (simp add: holds_after_family split: sum.splits prod.splits)
    qed
  qed
qed

lemma sort_points_inv: "pm_inv self \<Longrightarrow> holds_after pm_inv (sort_points function self)"
proof -
  assume inv: "pm_inv self"
  have body_inv: "\<And>ps rs. length ps = length rs \<Longrightarrow>
      (case sort_points_arrays function (ps, rs) of
         Inl (e, (ps', rs')) \<Rightarrow> length ps' = length rs'
       | Inr (ps', rs') \<Rightarrow> length ps' = length rs')"
    by (simp add: sort_points_arrays_def apply_over_attr_arrays_def take_rows_def Let_def)
  from for_family_inv(1)[of "sort_points_arrays function" self, OF body_inv inv]
  show ?thesis by (simp add: sort_points_def holds_after_family)
qed

lemma fade_to_inv: "pm_inv m \<Longrightarrow> pm_inv (fade_to color_to_rgba col alpha m)"
  by (induction m) auto

lemma length_merged: "pm_inv m \<Longrightarrow> length (get_merged_points m) = length (get_merged_rgbas m)"
proof (induction m)
  case (PMobject ps rs w c subs)
  then have "map (\<lambda>m. length (get_merged_points m)) subs =
             map (\<lambda>m. length (get_merged_rgbas m)) subs" by simp
  then have "sum_list (map (\<lambda>m. length (get_merged_points m)) subs) =
             sum_list (map (\<lambda>m. length (get_merged_rgbas m)) subs)"
    by (rule arg_cong)
  then have "length (concat (map get_merged_points subs)) =
             length (concat (map get_merged_rgbas subs))"
    by (simp add: length_concat o_def)
  with PMobject.prems show ?case by simp
qed

lemma ingest_submobjects_inv: "pm_inv self \<Longrightarrow> pm_inv (ingest_submobjects self)"
  by (simp add: ingest_submobjects_def length_merged)

lemma align_points_with_larger_inv:
  "pm_inv self \<Longrightarrow> holds_after pm_inv (align_points_with_larger self larger_mobject)"
  by (cases self)
     (auto simp: holds_after_def apply_over_attr_arrays_def stretch_array_to_length_def
           split: sum.splits if_splits)

lemma set_stroke_width_of_family_inv:
  "pm_inv (set_stroke_width_of_family width m) = pm_inv m"
  by (induction m) auto

lemma interpolate_color_inv:
  assumes "pm_inv self" and "length (rgbas mobject1) = length (rgbas mobject2)"
  shows "\<exists>s. interpolate_color self mobject1 mobject2 alpha = Inr s \<and>
             (pm_inv s \<longleftrightarrow> length (points self) = length (rgbas mobject1))"
proof (cases self)
  case (PMobject ps rs w c subs)
  let ?rs = "map2 (\<lambda>x y. interpolate_rgba x y alpha) (rgbas mobject1) (rgbas mobject2)"
  let ?w = "interpolate (get_stroke_width mobject1) (get_stroke_width mobject2) alpha"
  have "interpolate_color self mobject1 mobject2 alpha =
          Inr (set_stroke_width_of_family ?w (PMobject ps ?rs w c subs))"
    using assms(2) PMobject by (simp add: np_broadcast2_def)
  moreover have "pm_inv (set_stroke_width_of_family ?w (PMobject ps ?rs w c subs)) \<longleftrightarrow>
                 length (points self) = length (rgbas mobject1)"
    using assms PMobject by (simp only: set_stroke_width_of_family_inv) auto
  ultimately show ?thesis by blast
qed

lemma length_py_slice:
  "length xs = length ys \<Longrightarrow> length (py_slice xs lower upper) = length (py_slice ys lower upper)"
  by (simp add: py_slice_def Let_def)

lemma pointwise_become_partial_inv:
  "pm_inv self \<Longrightarrow> length (points mobject) = length (rgbas mobject) \<Longrightarrow>
   pm_inv (pointwise_become_partial self mobject a b)"
  using length_py_slice[of "points mobject" "rgbas mobject"]
  by (cases self) (simp add: Let_def)

text \<open>
  C1, as the claim states it, fails. \<open>interpolate_color\<close> assigns the colour array
  only: on a receiver with two points and two mobjects with one colour each it
  returns with two points and one colour. And \<open>add_points\<close> assigns \<open>points\<close>
  before it compares the lengths: when it raises, the receiver has its new points
  and its old colours.
\<close>

theorem pm_inv_after_mutation_counterexample:
  "pm_inv (PMobject [(0, 0, 0), (1, 0, 0)] [(1, 1, 1, 1), (1, 1, 1, 1)] 4 ''WHITE'' [])
   \<and> pm_inv (PMobject [(0, 0, 0)] [(1, 0, 0, 1)] 2 ''RED'' [])
   \<and> pm_inv (PMobject [(1, 1, 1)] [(0, 0, 1, 1)] 6 ''BLUE'' [])
   \<and> interpolate_color
        (PMobject [(0, 0, 0), (1, 0, 0)] [(1, 1, 1, 1), (1, 1, 1, 1)] 4 ''WHITE'' [])
        (PMobject [(0, 0, 0)] [(1, 0, 0, 1)] 2 ''RED'' [])
        (PMobject [(1, 1, 1)] [(0, 0, 1, 1)] 6 ''BLUE'' []) 0 =
      Inr (PMobject [(0, 0, 0), (1, 0, 0)] [(1, 0, 0, 1)] 2 ''WHITE'' [])
   \<and> \<not> pm_inv (PMobject [(0, 0, 0), (1, 0, 0)] [(1, 0, 0, 1)] 2 ''WHITE'' [])
   \<and> add_points (\<lambda>k a. (1, 1, 1, a)) id (PyList [(2, 0, 0)])
        (Some (PyList [(1, 0, 0, 1), (0, 1, 0, 1)])) None 1
        (PMobject [(0, 0, 0)] [(1, 1, 1, 1)] 4 ''WHITE'' []) =
      Inl (Exception ''points and rgbas must have same shape'',
           PMobject [(0, 0, 0), (2, 0, 0)] [(1, 1, 1, 1)] 4 ''WHITE'' [])
   \<and> \<not> pm_inv (PMobject [(0, 0, 0), (2, 0, 0)] [(1, 1, 1, 1)] 4 ''WHITE'' [])"
  by (simp add: np_broadcast2_def np_append_def interpolate_def get_stroke_width_def)

text \<open>
  C1, amended. If the arrays of the receiver and of every family member have equal
  length before the call, they have equal length
  \<^item> when \<open>reset_points\<close>, \<open>add_points\<close>, \<open>set_color\<close>, \<open>fade_to\<close> and
    \<open>ingest_submobjects\<close> return;
  \<^item> when \<open>filter_out\<close>, \<open>thin_out\<close>, \<open>sort_points\<close> and
    \<open>align_points_with_larger\<close> return, and also when they raise;
  \<^item> when \<open>set_color_by_gradient\<close> returns, if \<open>color_gradient\<close> gives one
    colour per point;
  \<^item> when \<open>match_colors\<close> returns, if \<open>align_data\<close> leaves the receiver with the
    invariant and with as many points as the other mobject has colours;
  \<^item> when \<open>pointwise_become_partial\<close> returns, if the arrays of the source
    mobject have equal length.
  \<open>interpolate_color\<close> of two mobjects with colour arrays of equal length returns,
  and the invariant holds after it exactly when the receiver has as many points as
  the first mobject has colours.
\<close>

theorem pm_inv_after_mutation:
  assumes "pm_inv self"
  shows "pm_inv (reset_points self)
    \<and> (\<forall>s. add_points color_to_rgba Color pts rgbas_arg color_arg alpha self = Inr s \<longrightarrow>
           pm_inv s)
    \<and> pm_inv (set_color color_to_rgba col family self)
    \<and> (length (color_gradient colors (length (points self))) = length (points self) \<longrightarrow>
         pm_inv (set_color_by_gradient color_to_rgba color_gradient colors self))
    \<and> ((\<forall>s m. align_data self mobject = Inr (s, m) \<longrightarrow>
                pm_inv s \<and> length (points s) = length (rgbas m)) \<longrightarrow>
        (\<forall>s m. match_colors align_data self mobject = Inr (s, m) \<longrightarrow> pm_inv s))
    \<and> holds_after pm_inv (filter_out condition self)
    \<and> holds_after pm_inv (thin_out factor self)
    \<and> holds_after pm_inv (sort_points function self)
    \<and> pm_inv (fade_to color_to_rgba col alpha self)
    \<and> pm_inv (ingest_submobjects self)
    \<and> holds_after pm_inv (align_points_with_larger self larger_mobject)
    \<and> (length (rgbas mobject1) = length (rgbas mobject2) \<longrightarrow>
         (\<exists>s. interpolate_color self mobject1 mobject2 alpha = Inr s \<and>
              (pm_inv s \<longleftrightarrow> length (points self) = length (rgbas mobject1))))
    \<and> (length (points mobject) = length (rgbas mobject) \<longrightarrow>
         pm_inv (pointwise_become_partial self mobject a b))"
proof (intro conjI allI impI)
  show "pm_inv (reset_points self)" using assms by (rule reset_points_inv)
  show "pm_inv s" if "add_points color_to_rgba Color pts rgbas_arg color_arg alpha self = Inr s"
    for s using assms that by (rule add_points_inv)
  show "pm_inv (set_color color_to_rgba col family self)" using assms by (rule set_color_inv)
  show "pm_inv (set_color_by_gradient color_to_rgba color_gradient colors self)"
    if "length (color_gradient colors (length (points self))) = length (points self)"
    using assms that by (rule set_color_by_gradient_inv)
  show "pm_inv s"
    if "\<forall>s m. align_data self mobject = Inr (s, m) \<longrightarrow>
                pm_inv s \<and> length (points s) = length (rgbas m)"
      and "match_colors align_data self mobject = Inr (s, m)" for s m
    using that by (rule match_colors_inv)
  show "holds_after pm_inv (filter_out condition self)" using assms by (rule filter_out_inv)
  show "holds_after pm_inv (thin_out factor self)" using assms by (rule thin_out_inv)
  show "holds_after pm_inv (sort_points function self)" using assms by (rule sort_points_inv)
  show "pm_inv (fade_to color_to_rgba col alpha self)" using assms by (rule fade_to_inv)
  show "pm_inv (ingest_submobjects self)" using assms by (rule ingest_submobjects_inv)
  show "holds_after pm_inv (align_points_with_larger self larger_mobject)"
    using assms by (rule align_points_with_larger_inv)
  show "\<exists>s. interpolate_color self mobject1 mobject2 alpha = Inr s \<and>
             (pm_inv s \<longleftrightarrow> length (points self) = length (rgbas mobject1))"
    if "length (rgbas mobject1) = length (rgbas mobject2)"
    using assms that by (rule interpolate_color_inv)
  show "pm_inv (pointwise_become_partial self mobject a b)"
    if "length (points mobject) = length (rgbas mobject)"
    using assms that by (rule pointwise_become_partial_inv)
qed

theorem pm_inv_after_mutation_witness:
  "pm_inv (PMobject [(0, 0, 0), (1, 0, 0), (2, 0, 0)] [(1, 1, 1, 1), (1, 1, 1, 1), (1, 1, 1, 1)]
             4 ''WHITE'' [PMobject [(5, 5, 5)] [(1, 0, 0, 1)] 2 ''RED'' []])
   \<and> pm_inv (reset_points
        (PMobject [(0, 0, 0), (1, 0, 0), (2, 0, 0)] [(1, 1, 1, 1), (1, 1, 1, 1), (1, 1, 1, 1)]
           4 ''WHITE'' [PMobject [(5, 5, 5)] [(1, 0, 0, 1)] 2 ''RED'' []]))
   \<and> (\<exists>s. add_points (\<lambda>k a. (1, 0, 0, a)) id (PyList [(3, 0, 0)]) None None (1/2)
             (PMobject [(0, 0, 0), (1, 0, 0), (2, 0, 0)]
                [(1, 1, 1, 1), (1, 1, 1, 1), (1, 1, 1, 1)]
                4 ''WHITE'' [PMobject [(5, 5, 5)] [(1, 0, 0, 1)] 2 ''RED'' []]) = Inr s
           \<and> pm_inv s)
   \<and> holds_after pm_inv (thin_out 2
        (PMobject [(0, 0, 0), (1, 0, 0), (2, 0, 0)] [(1, 1, 1, 1), (1, 1, 1, 1), (1, 1, 1, 1)]
           4 ''WHITE'' [PMobject [(5, 5, 5)] [(1, 0, 0, 1)] 2 ''RED'' []]))
   \<and> holds_after pm_inv (filter_out (\<lambda>(x, y, z). x < 3/2)
        (PMobject [(0, 0, 0), (1, 0, 0), (2, 0, 0)] [(1, 1, 1, 1), (1, 1, 1, 1), (1, 1, 1, 1)]
           4 ''WHITE'' [PMobject [(5, 5, 5)] [(1, 0, 0, 1)] 2 ''RED'' []]))
   \<and> pm_inv (set_color_by_gradient (\<lambda>k a. (1, 0, 0, a)) (\<lambda>cs n. replicate n ''RED'') [''RED'']
        (PMobject [(0, 0, 0), (1, 0, 0), (2, 0, 0)] [(1, 1, 1, 1), (1, 1, 1, 1), (1, 1, 1, 1)]
           4 ''WHITE'' [PMobject [(5, 5, 5)] [(1, 0, 0, 1)] 2 ''RED'' []]))
   \<and> (\<exists>s m. match_colors (\<lambda>s m. Inr (s, m))
             (PMobject [(0, 0, 0), (1, 0, 0), (2, 0, 0)]
                [(1, 1, 1, 1), (1, 1, 1, 1), (1, 1, 1, 1)]
                4 ''WHITE'' [PMobject [(5, 5, 5)] [(1, 0, 0, 1)] 2 ''RED'' []])
             (PMobject [(7, 0, 0), (8, 0, 0), (9, 0, 0)]
                [(0, 0, 1, 1), (0, 0, 1, 1), (0, 0, 1, 1)] 6 ''BLUE'' []) = Inr (s, m)
           \<and> pm_inv s)
   \<and> (\<exists>s. interpolate_color
             (PMobject [(0, 0, 0), (1, 0, 0), (2, 0, 0)]
                [(1, 1, 1, 1), (1, 1, 1, 1), (1, 1, 1, 1)]
                4 ''WHITE'' [PMobject [(5, 5, 5)] [(1, 0, 0, 1)] 2 ''RED'' []])
             (PMobject [(7, 0, 0), (8, 0, 0), (9, 0, 0)]
                [(0, 0, 1, 1), (0, 0, 1, 1), (0, 0, 1, 1)] 6 ''BLUE'' [])
             (PMobject [(7, 0, 0), (8, 0, 0), (9, 0, 0)]
                [(0, 0, 1, 1), (0, 0, 1, 1), (0, 0, 1, 1)] 6 ''BLUE'' []) (1/2) = Inr s
           \<and> pm_inv s)
   \<and> pm_inv (pointwise_become_partial
        (PMobject [(0, 0, 0), (1, 0, 0), (2, 0, 0)] [(1, 1, 1, 1), (1, 1, 1, 1), (1, 1, 1, 1)]
           4 ''WHITE'' [PMobject [(5, 5, 5)] [(1, 0, 0, 1)] 2 ''RED'' []])
        (PMobject [(7, 0, 0), (8, 0, 0), (9, 0, 0)]
           [(0, 0, 1, 1), (0, 0, 1, 1), (0, 0, 1, 1)] 6 ''BLUE'' []) 0 (1/2))"
  using pm_inv_after_mutation
    [where self = "PMobject [(0, 0, 0), (1, 0, 0), (2, 0, 0)]
                     [(1, 1, 1, 1), (1, 1, 1, 1), (1, 1, 1, 1)]
                     4 ''WHITE'' [PMobject [(5, 5, 5)] [(1, 0, 0, 1)] 2 ''RED'' []]"
       and color_to_rgba = "\<lambda>k a. (1, 0, 0, a)" and Color = id
       and pts = "PyList [(3, 0, 0)]" and rgbas_arg = None and color_arg = None
       and alpha = "1/2" and factor = 2 and condition = "\<lambda>(x, y, z). x < 3/2"
       and color_gradient = "\<lambda>cs n. replicate n ''RED''" and colors = "[''RED'']"
       and align_data = "\<lambda>s m. Inr (s, m)"
       and mobject = "PMobject [(7, 0, 0), (8, 0, 0), (9, 0, 0)]
                        [(0, 0, 1, 1), (0, 0, 1, 1), (0, 0, 1, 1)] 6 ''BLUE'' []"
       and ?mobject1.0 = "PMobject [(7, 0, 0), (8, 0, 0), (9, 0, 0)]
                        [(0, 0, 1, 1), (0, 0, 1, 1), (0, 0, 1, 1)] 6 ''BLUE'' []"
       and ?mobject2.0 = "PMobject [(7, 0, 0), (8, 0, 0), (9, 0, 0)]
                        [(0, 0, 1, 1), (0, 0, 1, 1), (0, 0, 1, 1)] 6 ''BLUE'' []"
       and a = 0 and b = "1/2"]
  by (simp add: np_append_def match_colors_def)

end
